theory Spec2Isabelle
  imports Main "HOL-Library.AList"
begin

section \<open>Text\<close>

text \<open>
  A Python \<open>str\<close> is a sequence of Unicode code points; the directive keywords of the
  game master are Chinese, so a text is modelled as the list of its code points.
\<close>

type_synonym pystr = "nat list"

section \<open>The chronicle (chronicle.py)\<close>

record utterance =
  u_seat :: int
  u_idx :: int
  u_text :: pystr
  u_one_line :: pystr

text \<open>
  A night event is a dictionary with the key \<open>t\<close> and, depending on the event, the keys
  \<open>from\<close> and \<open>target\<close>.
\<close>

record night_event =
  ev_t :: pystr
  ev_from :: "int option"
  ev_target :: "int option"

record DayRecord =
  order :: "int list"
  utterances :: "utterance list"
  votes :: "(int \<times> int option) list"
  lynch :: "int option"
  summary_10 :: "pystr list"

record NightRecord =
  events :: "night_event list"
  summary_5 :: "pystr list"

record RoundRecord =
  round :: int
  night :: NightRecord
  day :: DayRecord

record Chronicle =
  seats :: "int list"
  rounds :: "int \<rightharpoonup> RoundRecord"
  global_summary :: "pystr list"

text \<open>The default of \<open>global_summary\<close>: one entry, the text "first night in progress".\<close>

definition first_night_text :: pystr where
  "first_night_text = [39318, 22812, 36827, 34892, 20013, 12290]"

definition new_chronicle :: "int list \<Rightarrow> Chronicle" where
  "new_chronicle ss = \<lparr>seats = ss, rounds = Map.empty, global_summary = [first_night_text]\<rparr>"

definition new_round :: "int \<Rightarrow> int list \<Rightarrow> RoundRecord" where
  "new_round r ord =
     \<lparr>round = r,
      night = \<lparr>events = [], summary_5 = []\<rparr>,
      day = \<lparr>order = ord, utterances = [], votes = [], lynch = None, summary_10 = []\<rparr>\<rparr>"

text \<open>
  \<open>ensure_round\<close> creates the round's record on first touch (with the given order, or the
  empty one), overwrites the day order of an existing record when an order is given, and
  returns the record; the model returns the chronicle as it is afterwards and that record.
\<close>

definition ensure_round :: "Chronicle \<Rightarrow> int \<Rightarrow> int list option \<Rightarrow> Chronicle \<times> RoundRecord" where
  "ensure_round c round_no ord =
     (case rounds c round_no of
        None \<Rightarrow>
          (let r = new_round round_no (case ord of None \<Rightarrow> [] | Some xs \<Rightarrow> xs)
           in (c\<lparr>rounds := (rounds c)(round_no \<mapsto> r)\<rparr>, r))
      | Some r \<Rightarrow>
          (case ord of
             None \<Rightarrow> (c, r)
           | Some xs \<Rightarrow>
               (let r' = r\<lparr>day := (day r)\<lparr>order := xs\<rparr>\<rparr>
                in (c\<lparr>rounds := (rounds c)(round_no \<mapsto> r')\<rparr>, r'))))"

text \<open>Writing a changed record back: the source mutates the record object in place.\<close>

definition put_round :: "Chronicle \<Rightarrow> int \<Rightarrow> RoundRecord \<Rightarrow> Chronicle" where
  "put_round c round_no r = c\<lparr>rounds := (rounds c)(round_no \<mapsto> r)\<rparr>"

definition log_night_event :: "Chronicle \<Rightarrow> int \<Rightarrow> night_event \<Rightarrow> Chronicle" where
  "log_night_event c round_no ev =
     (let (c1, r) = ensure_round c round_no None
      in put_round c1 round_no (r\<lparr>night := (night r)\<lparr>events := events (night r) @ [ev]\<rparr>\<rparr>))"

definition set_night_summary :: "Chronicle \<Rightarrow> int \<Rightarrow> pystr list \<Rightarrow> Chronicle" where
  "set_night_summary c round_no summary =
     (let (c1, r) = ensure_round c round_no None
      in put_round c1 round_no (r\<lparr>night := (night r)\<lparr>summary_5 := take 5 summary\<rparr>\<rparr>))"

definition add_day_utterance :: "Chronicle \<Rightarrow> int \<Rightarrow> int \<Rightarrow> int \<Rightarrow> pystr \<Rightarrow> pystr \<Rightarrow> Chronicle" where
  "add_day_utterance c round_no seat idx txt one_line =
     (let (c1, r) = ensure_round c round_no None
      in put_round c1 round_no
           (r\<lparr>day := (day r)\<lparr>utterances := utterances (day r) @
              [\<lparr>u_seat = seat, u_idx = idx, u_text = txt, u_one_line = one_line\<rparr>]\<rparr>\<rparr>))"

definition add_vote :: "Chronicle \<Rightarrow> int \<Rightarrow> int \<Rightarrow> int option \<Rightarrow> Chronicle" where
  "add_vote c round_no from_seat to_seat =
     (let (c1, r) = ensure_round c round_no None
      in put_round c1 round_no (r\<lparr>day := (day r)\<lparr>votes := votes (day r) @ [(from_seat, to_seat)]\<rparr>\<rparr>))"

definition set_lynch :: "Chronicle \<Rightarrow> int \<Rightarrow> int option \<Rightarrow> Chronicle" where
  "set_lynch c round_no seat =
     (let (c1, r) = ensure_round c round_no None
      in put_round c1 round_no (r\<lparr>day := (day r)\<lparr>lynch := seat\<rparr>\<rparr>))"

definition append_day_summary :: "Chronicle \<Rightarrow> int \<Rightarrow> pystr \<Rightarrow> Chronicle" where
  "append_day_summary c round_no summary =
     (let (c1, r) = ensure_round c round_no None
      in if summary \<notin> set (summary_10 (day r))
         then put_round c1 round_no
                (r\<lparr>day := (day r)\<lparr>summary_10 := take 10 (summary_10 (day r) @ [summary])\<rparr>\<rparr>)
         else c1)"

text \<open>\<open>xs[-6:]\<close> keeps the last six entries.\<close>

definition refresh_global_summary :: "Chronicle \<Rightarrow> pystr \<Rightarrow> Chronicle" where
  "refresh_global_summary c txt =
     (if txt \<notin> set (global_summary c)
      then (let g = global_summary c @ [txt]
            in c\<lparr>global_summary := (if length g > 6 then drop (length g - 6) g else g)\<rparr>)
      else c)"

text \<open>A sequence of chronicle operations, as the game master issues them.\<close>

datatype chron_op =
    EnsureRound int "int list option"
  | LogNightEvent int night_event
  | SetNightSummary int "pystr list"
  | AddDayUtterance int int int pystr pystr
  | AddVote int int "int option"
  | SetLynch int "int option"
  | AppendDaySummary int pystr
  | RefreshGlobalSummary pystr

fun chron_step :: "Chronicle \<Rightarrow> chron_op \<Rightarrow> Chronicle" where
  "chron_step c (EnsureRound r ord) = fst (ensure_round c r ord)"
| "chron_step c (LogNightEvent r ev) = log_night_event c r ev"
| "chron_step c (SetNightSummary r s) = set_night_summary c r s"
| "chron_step c (AddDayUtterance r seat idx txt one) = add_day_utterance c r seat idx txt one"
| "chron_step c (AddVote r f t) = add_vote c r f t"
| "chron_step c (SetLynch r seat) = set_lynch c r seat"
| "chron_step c (AppendDaySummary r s) = append_day_summary c r s"
| "chron_step c (RefreshGlobalSummary txt) = refresh_global_summary c txt"

fun chron_run :: "Chronicle \<Rightarrow> chron_op list \<Rightarrow> Chronicle" where
  "chron_run c [] = c"
| "chron_run c (x # xs) = chron_run (chron_step c x) xs"

text \<open>The bound and the absence of duplicates, for the global list and for every round.\<close>

definition summaries_ok :: "Chronicle \<Rightarrow> bool" where
  "summaries_ok c \<longleftrightarrow>
     length (global_summary c) \<le> 6 \<and> distinct (global_summary c) \<and>
     (\<forall>r rec. rounds c r = Some rec \<longrightarrow>
        length (summary_10 (day rec)) \<le> 10 \<and> distinct (summary_10 (day rec)))"

section \<open>Directives (gm.py, DIRECTIVE_PATTERN and _parse_directive)\<close>

text \<open>
  The pattern is: an opening lenticular bracket (U+3010), one or more characters other
  than the closing bracket (U+3011) as the action, the closing bracket, the two characters
  of the word "seat" (U+5EA7, U+4F4D), and exactly one \<open>\d\<close> as the seat.
\<close>

definition LB :: nat where "LB = 12304"
definition RB :: nat where "RB = 12305"
definition ZUO :: nat where "ZUO = 24231"
definition WEI :: nat where "WEI = 20301"

text \<open>
  On a \<open>str\<close> pattern \<open>\d\<close> matches every Unicode decimal digit, and \<open>int\<close> reads
  such a character as its digit value. The Unicode database is no part of the repository:
  it is a parameter, the list of the code points of the zeros of the decimal digit blocks
  (each block is ten consecutive code points, zero first). ASCII is the block at 48.
\<close>

type_synonym digit_table = "nat list"

fun decimal_value :: "digit_table \<Rightarrow> nat \<Rightarrow> nat option" where
  "decimal_value [] c = None"
| "decimal_value (z # zs) c =
     (if z \<le> c \<and> c < z + 10 then Some (c - z) else decimal_value zs c)"

text \<open>
  One match attempt at the head of the text: the action, the seat and the text after the
  match. The action is greedy and cannot cross a closing bracket, so it is the longest run
  of other characters; no shorter run can be followed by the closing bracket.
\<close>

fun match_here :: "digit_table \<Rightarrow> pystr \<Rightarrow> (pystr \<times> nat \<times> pystr) option" where
  "match_here dz [] = None"
| "match_here dz (c # cs) =
     (if c \<noteq> LB then None
      else (let action = takeWhile (\<lambda>x. x \<noteq> RB) cs;
                after = dropWhile (\<lambda>x. x \<noteq> RB) cs
            in if action = [] then None
               else (case after of
                       r # z # w # d # rest \<Rightarrow>
                         (if r = RB \<and> z = ZUO \<and> w = WEI
                          then (case decimal_value dz d of
                                  None \<Rightarrow> None
                                | Some v \<Rightarrow> Some (action, v, rest))
                          else None)
                     | _ \<Rightarrow> None)))"

lemma match_here_shorter:
  "match_here dz txt = Some (a, v, rest) \<Longrightarrow> length rest < length txt"
proof (cases "txt")
  case Nil
  assume "match_here dz txt = Some (a, v, rest)"
  with Nil show ?thesis by simp
next
  case (Cons c cs)
  assume m: "match_here dz txt = Some (a, v, rest)"
  have "length (dropWhile (\<lambda>x. x \<noteq> RB) cs) \<le> length cs"
    by (rule length_dropWhile_le)
  moreover from m Cons have "\<exists>r z w d. dropWhile (\<lambda>x. x \<noteq> RB) cs = r # z # w # d # rest"
    by (auto simp: Let_def split: if_splits list.splits option.splits)
  ultimately show ?thesis using Cons by auto
qed

text \<open>
  \<open>finditer\<close>: the matches from left to right, none overlapping another; the search goes
  on after a match, and one character further where there is none.
\<close>

function finditer :: "digit_table \<Rightarrow> pystr \<Rightarrow> (pystr \<times> nat) list" where
  "finditer dz [] = []"
| "finditer dz (c # cs) =
     (case match_here dz (c # cs) of
        None \<Rightarrow> finditer dz cs
      | Some (a, v, rest) \<Rightarrow> (a, v) # finditer dz rest)"
  by pat_completeness auto
termination
  by (relation "measure (\<lambda>(dz, txt). length txt)") (auto dest: match_here_shorter simp del: match_here.simps)

fun first_action :: "pystr \<Rightarrow> (pystr \<times> nat) list \<Rightarrow> int option" where
  "first_action keyword [] = None"
| "first_action keyword ((a, v) # ms) =
     (if a = keyword then Some (int v) else first_action keyword ms)"

definition parse_directive :: "digit_table \<Rightarrow> pystr \<Rightarrow> pystr \<Rightarrow> int option" where
  "parse_directive dz txt keyword = first_action keyword (finditer dz txt)"

text \<open>The substring test \<open>sub in txt\<close>.\<close>

fun starts_with :: "pystr \<Rightarrow> pystr \<Rightarrow> bool" where
  "starts_with [] txt = True"
| "starts_with (s # ss) [] = False"
| "starts_with (s # ss) (c # cs) = (s = c \<and> starts_with ss cs)"

fun contains :: "pystr \<Rightarrow> pystr \<Rightarrow> bool" where
  "contains sub [] = (sub = [])"
| "contains sub (c # cs) = (starts_with sub (c # cs) \<or> contains sub cs)"

text \<open>The keywords the game master looks for: kill, vote, shoot.\<close>

definition kw_kill :: pystr where "kw_kill = [20987, 26432]"
definition kw_vote :: pystr where "kw_vote = [25237, 31080]"
definition kw_shoot :: pystr where "kw_shoot = [24320, 26538]"

text \<open>\<open>str\<close> of an integer, as the f-strings of the summaries use it.\<close>

fun digits_of :: "nat \<Rightarrow> nat \<Rightarrow> pystr" where
  "digits_of 0 n = []"
| "digits_of (Suc fuel) n =
     (if n < 10 then [48 + n] else digits_of fuel (n div 10) @ [48 + n mod 10])"

definition str_of_int :: "int \<Rightarrow> pystr" where
  "str_of_int i = (if i < 0 then 45 # digits_of (Suc (nat (- i))) (nat (- i))
                   else digits_of (Suc (nat i)) (nat i))"

section \<open>The roster (models.py)\<close>

datatype Role = WOLF | WITCH | HUNTER | VILLAGER

record potion_state =
  heal_left :: int
  poison_left :: int

text \<open>The private dictionary of a seat: the keys \<open>is_wolf\<close>, \<open>wolf_mates\<close> and, for the witch, \<open>potions\<close>.\<close>

record role_private_state =
  is_wolf :: bool
  wolf_mates :: "int list"
  potions :: "potion_state option"

record player_note =
  n_r :: int
  n_d :: string
  bullets :: "pystr list"

record SeatConfig =
  seat_id :: int
  role :: Role
  persona :: pystr
  dialect :: pystr

text \<open>A player's state starts with the four fields of its seat's configuration.\<close>

record PlayerState = SeatConfig +
  alive :: bool
  trust :: "(int \<times> int) list"
  notes_of :: "player_note list"
  role_private :: role_private_state
  hunter_has_shot :: bool

record NightOutcome =
  kill_target :: "int option"
  healed_target :: "int option"
  poisoned_target :: "int option"

text \<open>\<open>NightOutcome()\<close>: nothing decided yet.\<close>

definition new_night_outcome :: NightOutcome where
  "new_night_outcome = \<lparr>kill_target = None, healed_target = None, poisoned_target = None\<rparr>"

record VoteRecord =
  vr_round_no :: int
  vr_votes :: "(int \<times> int option) list"
  vr_lynched :: "int option"

record GameConfig =
  seating_plan :: "SeatConfig list"
  max_rounds :: int

definition seat_ids :: "GameConfig \<Rightarrow> int list" where
  "seat_ids config = map seat_id (seating_plan config)"

text \<open>
  A dictionary keeps its keys in insertion order, and the game master iterates over it:
  the roster is an association list. \<open>map_of\<close> is the lookup, \<open>AList.update\<close> the
  assignment \<open>d[k] = v\<close>: in place for a key that is there, at the end for a new one.
\<close>

type_synonym roster = "(int \<times> PlayerState) list"

datatype py_error = KeyError | IndexError | AttributeError

fun setdefault :: "(int \<times> int) list \<Rightarrow> int \<Rightarrow> int \<Rightarrow> (int \<times> int) list" where
  "setdefault d k v = (case map_of d k of None \<Rightarrow> d @ [(k, v)] | Some _ \<Rightarrow> d)"

definition ensure_trust_initialised :: "(int \<times> int) list \<Rightarrow> int list \<Rightarrow> (int \<times> int) list" where
  "ensure_trust_initialised t ss = foldl (\<lambda>d sid. setdefault d sid 50) t ss"

section \<open>The game master (gm.py)\<close>

record StageResult =
  sr_seat :: int
  sr_stage :: string
  sr_prompt_text :: pystr
  sr_response :: "pystr option"

text \<open>
  The state of a match. The random source is shared with the agents and is opaque here:
  a value of any type \<open>'r\<close>. The prompt repository, the client and the sessions are
  the surroundings of the match; what they contribute enters as an \<open>interaction\<close> below.
\<close>

record 'r GameMaster =
  config :: GameConfig
  players :: roster
  chronicle :: Chronicle
  round_no :: int
  night_outcome :: "NightOutcome option"
  day_spoken :: "(int \<times> bool) list"
  vote_record :: "VoteRecord option"
  log :: "StageResult list"
  result :: string
  rng :: 'r

definition initial_player :: "int list \<Rightarrow> int list \<Rightarrow> SeatConfig \<Rightarrow> PlayerState" where
  "initial_player ss wolf_ids seat =
     \<lparr>seat_id = seat_id seat, role = role seat, persona = persona seat, dialect = dialect seat,
      alive = True,
      trust = ensure_trust_initialised [] ss,
      notes_of = [],
      role_private =
        (if role seat = WOLF
         then \<lparr>is_wolf = True, wolf_mates = filter (\<lambda>wid. wid \<noteq> seat_id seat) wolf_ids, potions = None\<rparr>
         else if role seat = WITCH
         then \<lparr>is_wolf = False, wolf_mates = [], potions = Some \<lparr>heal_left = 1, poison_left = 1\<rparr>\<rparr>
         else \<lparr>is_wolf = False, wolf_mates = [], potions = None\<rparr>),
      hunter_has_shot = False\<rparr>"

text \<open>\<open>_initialise_players\<close> fills the two dictionaries seat by seat, in the plan's order.\<close>

definition initialise_players :: "SeatConfig list \<Rightarrow> roster \<times> (int \<times> bool) list" where
  "initialise_players plan =
     (let ss = map seat_id plan;
          wolf_ids = map seat_id (filter (\<lambda>seat. role seat = WOLF) plan)
      in foldl (\<lambda>(ps, spoken) seat.
                  (AList.update (seat_id seat) (initial_player ss wolf_ids seat) ps,
                   AList.update (seat_id seat) False spoken))
           ([], []) plan)"

definition new_game :: "GameConfig \<Rightarrow> 'r \<Rightarrow> 'r GameMaster" where
  "new_game cfg g =
     \<lparr>config = cfg,
      players = fst (initialise_players (seating_plan cfg)),
      chronicle = new_chronicle (seat_ids cfg),
      round_no = 1,
      night_outcome = None,
      day_spoken = snd (initialise_players (seating_plan cfg)),
      vote_record = None,
      log = [],
      result = ''ongoing'',
      rng = g\<rparr>"

text \<open>
  One exchange with a seat's agent, as \<open>_send_stage\<close> sees it: the prompt the repository
  renders, the agent's reply, and the shared random source as the agent leaves it. They
  are inputs of the model. The stage is shown and appended to the log. A template or a
  session that is missing raises before the match is touched; that failure of the
  surroundings is left out.
\<close>

record 'r interaction =
  i_prompt_text :: pystr
  i_response :: "pystr option"
  i_rng :: 'r

definition send_stage ::
  "'r GameMaster \<Rightarrow> int \<Rightarrow> string \<Rightarrow> 'r interaction \<Rightarrow> pystr option \<times> 'r GameMaster" where
  "send_stage gm seat stage_name ia =
     (i_response ia,
      gm\<lparr>log := log gm @ [\<lparr>sr_seat = seat, sr_stage = stage_name,
                            sr_prompt_text = i_prompt_text ia, sr_response = i_response ia\<rparr>],
         rng := i_rng ia\<rparr>)"

subsection \<open>Utilities\<close>

definition alive_seats :: "roster \<Rightarrow> int list" where
  "alive_seats ps = map fst (filter (\<lambda>(seat, player). alive player) ps)"

definition wolves_alive :: "roster \<Rightarrow> int list" where
  "wolves_alive ps = map fst (filter (\<lambda>(seat, player). alive player \<and> role player = WOLF) ps)"

text \<open>The assignment \<open>self.players[seat].alive = False\<close>, which raises for a missing key.\<close>

definition set_dead :: "roster \<Rightarrow> int \<Rightarrow> py_error + roster" where
  "set_dead ps seat =
     (case map_of ps seat of
        None \<Rightarrow> Inl KeyError
      | Some p \<Rightarrow> Inr (AList.update seat (p\<lparr>alive := False\<rparr>) ps))"

subsection \<open>Night: the wolves' tally (the end of _night_wolves)\<close>

text \<open>
  \<open>Counter(votes)\<close> counts element by element, a new key going to the end of the
  dictionary; \<open>most_common(1)\<close> is \<open>max\<close> over the items by count, and \<open>max\<close> keeps the
  first of several largest items.
\<close>

definition counter_add :: "(int \<times> nat) list \<Rightarrow> int \<Rightarrow> (int \<times> nat) list" where
  "counter_add cs x = AList.update x (case map_of cs x of None \<Rightarrow> 1 | Some n \<Rightarrow> n + 1) cs"

definition Counter :: "int list \<Rightarrow> (int \<times> nat) list" where
  "Counter xs = foldl counter_add [] xs"

fun max_by_count :: "(int \<times> nat) \<Rightarrow> (int \<times> nat) list \<Rightarrow> (int \<times> nat)" where
  "max_by_count best [] = best"
| "max_by_count best (x # xs) = max_by_count (if snd best < snd x then x else best) xs"

definition most_common_1 :: "(int \<times> nat) list \<Rightarrow> (int \<times> nat) list" where
  "most_common_1 cs = (case cs of [] \<Rightarrow> [] | x # xs \<Rightarrow> [max_by_count x xs])"

text \<open>
  The kill target the tally leaves in the night outcome (\<open>None\<close>: it stays unset);
  \<open>most_common(1)[0]\<close> raises on an empty list.
\<close>

definition wolves_kill_target :: "int list \<Rightarrow> py_error + int option" where
  "wolves_kill_target wolf_votes =
     (if wolf_votes \<noteq> []
      then (case most_common_1 (Counter wolf_votes) of
              [] \<Rightarrow> Inl IndexError
            | (target, _) # _ \<Rightarrow> Inr (Some target))
      else Inr None)"

text \<open>
  The end of \<open>_night_wolves\<close>: with votes, the target is written to the night outcome
  (which \<open>_night_phase\<close> has just created) and logged as the event \<open>N<round>_kill\<close>.
\<close>

definition kill_event_name :: "int \<Rightarrow> pystr" where
  "kill_event_name n = 78 # str_of_int n @ [95, 107, 105, 108, 108]"

definition night_wolves_tally :: "'r GameMaster \<Rightarrow> int list \<Rightarrow> py_error + 'r GameMaster" where
  "night_wolves_tally gm wolf_votes =
     (case wolves_kill_target wolf_votes of
        Inl e \<Rightarrow> Inl e
      | Inr None \<Rightarrow> Inr gm
      | Inr (Some target) \<Rightarrow>
          (case night_outcome gm of
             None \<Rightarrow> Inl AttributeError
           | Some outcome \<Rightarrow>
               Inr (gm\<lparr>night_outcome := Some (outcome\<lparr>kill_target := Some target\<rparr>),
                       chronicle := log_night_event (chronicle gm) (round_no gm)
                                      \<lparr>ev_t = kill_event_name (round_no gm), ev_from = None,
                                       ev_target = Some target\<rparr>\<rparr>)))"

subsection \<open>Daybreak: _resolve_deaths\<close>

fun unique_deaths :: "roster \<Rightarrow> int list \<Rightarrow> int list \<Rightarrow> int list" where
  "unique_deaths ps acc [] = acc"
| "unique_deaths ps acc (seat # deaths) =
     unique_deaths ps
       (if seat \<notin> set acc \<and> (case map_of ps seat of None \<Rightarrow> False | Some p \<Rightarrow> alive p)
        then acc @ [seat] else acc)
       deaths"

text \<open>
  The last loop sets \<open>alive\<close> of every listed seat; each is a key of the roster, the loop
  before admits no other, so the assignment cannot raise there.
\<close>

definition mark_dead :: "roster \<Rightarrow> int \<Rightarrow> roster" where
  "mark_dead ps seat = (case set_dead ps seat of Inl _ \<Rightarrow> ps | Inr ps' \<Rightarrow> ps')"

definition night_deaths :: "NightOutcome \<Rightarrow> int list" where
  "night_deaths outcome =
     (case kill_target outcome of
        None \<Rightarrow> []
      | Some k \<Rightarrow> (if healed_target outcome = Some k then [] else [k])) @
     (case poisoned_target outcome of None \<Rightarrow> [] | Some p \<Rightarrow> [p])"

definition resolve_deaths :: "'r GameMaster \<Rightarrow> int list \<times> 'r GameMaster" where
  "resolve_deaths gm =
     (case night_outcome gm of
        None \<Rightarrow> ([], gm)
      | Some outcome \<Rightarrow>
          (let unique = unique_deaths (players gm) [] (night_deaths outcome)
           in (unique, gm\<lparr>players := foldl mark_dead (players gm) unique\<rparr>)))"

subsection \<open>The hunter: _trigger_hunter_if_needed\<close>

text \<open>The bracketed shoot keyword, and the global summary line of a shot.\<close>

definition shoot_tag :: pystr where
  "shoot_tag = [12304, 24320, 26538, 12305]"

definition shot_text :: "int \<Rightarrow> int \<Rightarrow> pystr" where
  "shot_text seat target =
     [29454, 20154] @ str_of_int seat @ [21495, 26538, 26432, 65306] @ str_of_int target @ [21495]"

text \<open>\<open>player.hunter_has_shot = True\<close>, on the object the roster holds for the seat.\<close>

definition mark_shot :: "roster \<Rightarrow> int \<Rightarrow> roster" where
  "mark_shot ps seat =
     (case map_of ps seat of
        None \<Rightarrow> ps
      | Some p \<Rightarrow> AList.update seat (p\<lparr>hunter_has_shot := True\<rparr>) ps)"

text \<open>
  The result is \<open>Inr\<close> of the state when the call returns, and \<open>Inl\<close> of the error and
  the state left behind when it raises: \<open>self.players[target]\<close> raises for a target that
  is no seat when the fallback of the lookup before it, the hunter, is alive.
\<close>

definition trigger_hunter_if_needed ::
  "digit_table \<Rightarrow> 'r GameMaster \<Rightarrow> int \<Rightarrow> string \<Rightarrow> 'r interaction \<Rightarrow>
   (py_error \<times> 'r GameMaster) + 'r GameMaster" where
  "trigger_hunter_if_needed dz gm seat cause ia =
     (case map_of (players gm) seat of
        None \<Rightarrow> Inr gm
      | Some player \<Rightarrow>
          (if role player \<noteq> HUNTER \<or> hunter_has_shot player then Inr gm
           else (let (response, gm1) = send_stage gm seat ''stage_hunter_trigger'' ia
                 in (case response of
                       None \<Rightarrow> Inr gm1
                     | Some resp \<Rightarrow>
                         (if resp = [] then Inr gm1
                          else if contains shoot_tag resp
                          then (case parse_directive dz resp kw_shoot of
                                  None \<Rightarrow> Inr (gm1\<lparr>players := mark_shot (players gm1) seat\<rparr>)
                                | Some target \<Rightarrow>
                                    (if alive (case map_of (players gm1) target of
                                                 None \<Rightarrow> player | Some tp \<Rightarrow> tp)
                                     then (case set_dead (players gm1) target of
                                             Inl e \<Rightarrow> Inl (e, gm1)
                                           | Inr ps' \<Rightarrow>
                                               Inr (gm1\<lparr>players := mark_shot ps' seat,
                                                        chronicle := refresh_global_summary (chronicle gm1)
                                                                       (shot_text seat target)\<rparr>))
                                     else Inr (gm1\<lparr>players := mark_shot (players gm1) seat\<rparr>)))
                          else Inr (gm1\<lparr>players := mark_shot (players gm1) seat\<rparr>))))))"

text \<open>
  One trigger call, with its reply. A call that raises leaves the state it had reached.
\<close>

record 'r trigger_call =
  t_seat :: int
  t_cause :: string
  t_reply :: "'r interaction"

definition trigger_state :: "digit_table \<Rightarrow> 'r GameMaster \<Rightarrow> 'r trigger_call \<Rightarrow> 'r GameMaster" where
  "trigger_state dz gm c =
     (case trigger_hunter_if_needed dz gm (t_seat c) (t_cause c) (t_reply c) of
        Inl (e, gm') \<Rightarrow> gm'
      | Inr gm' \<Rightarrow> gm')"

subsection \<open>The end of a match: _is_finished\<close>

definition is_finished :: "'r GameMaster \<Rightarrow> bool \<times> 'r GameMaster" where
  "is_finished gm =
     (let wolves_n = length (filter (\<lambda>p. alive p \<and> role p = WOLF) (map snd (players gm)));
          villagers_n = length (filter (\<lambda>p. alive p \<and> role p \<noteq> WOLF) (map snd (players gm)))
      in if wolves_n = 0 then (True, gm\<lparr>result := ''villagers_win''\<rparr>)
         else if wolves_n \<ge> villagers_n then (True, gm\<lparr>result := ''wolves_win''\<rparr>)
         else (False, gm))"

text \<open>Calling the evaluator \<open>n\<close> times in a row: the answers, and the state at the end.\<close>

fun is_finished_times :: "nat \<Rightarrow> 'r GameMaster \<Rightarrow> bool list \<times> 'r GameMaster" where
  "is_finished_times 0 gm = ([], gm)"
| "is_finished_times (Suc n) gm =
     (let (b, gm1) = is_finished gm; (bs, gm2) = is_finished_times n gm1 in (b # bs, gm2))"

subsection \<open>The day: the speaking order (the head of _day_phase)\<close>

definition day_phase_order :: "'r GameMaster \<Rightarrow> int list \<times> 'r GameMaster" where
  "day_phase_order gm =
     (let alive_order = alive_seats (players gm)
      in (alive_order,
          gm\<lparr>chronicle := fst (ensure_round (chronicle gm) (round_no gm) (Some alive_order)),
             day_spoken := map (\<lambda>(seat, player). (seat, False)) (players gm)\<rparr>))"

subsection \<open>The vote of one seat (the loop body of _voting)\<close>

text \<open>The target read from the reply; no reply and an empty reply give none.\<close>

definition parsed_vote :: "digit_table \<Rightarrow> pystr option \<Rightarrow> int option" where
  "parsed_vote dz vote =
     (case vote of
        None \<Rightarrow> None
      | Some v \<Rightarrow> if v = [] then None else parse_directive dz v kw_vote)"

definition vote_target :: "digit_table \<Rightarrow> roster \<Rightarrow> pystr option \<Rightarrow> int option" where
  "vote_target dz ps vote =
     (let target = parsed_vote dz vote;
          target_player = (case target of None \<Rightarrow> None | Some t \<Rightarrow> map_of ps t)
      in if (case target_player of None \<Rightarrow> True | Some tp \<Rightarrow> \<not> alive tp)
         then (case wolves_alive ps of [] \<Rightarrow> None | w # _ \<Rightarrow> Some w)
         else target)"

text \<open>
  One round of the loop for a seat: a dead seat is passed over; otherwise the five stages
  are sent (life check, context, digest, notes, vote), the reply to the last is resolved
  and the vote is written to the vote record and to the chronicle. The tally and the lynch
  that follow the loop draw on the random source and are not part of this model.
\<close>

definition voting_seat ::
  "digit_table \<Rightarrow> VoteRecord \<times> 'r GameMaster \<Rightarrow> int \<Rightarrow>
   'r interaction \<Rightarrow> 'r interaction \<Rightarrow> 'r interaction \<Rightarrow> 'r interaction \<Rightarrow> 'r interaction \<Rightarrow>
   py_error + VoteRecord \<times> 'r GameMaster" where
  "voting_seat dz st seat ia1 ia2 ia3 ia4 ia5 =
     (case st of (vr, gm) \<Rightarrow>
        (case map_of (players gm) seat of
           None \<Rightarrow> Inl KeyError
         | Some player \<Rightarrow>
             (if \<not> alive player then Inr (vr, gm)
              else (let gm1 = snd (send_stage gm seat ''stage_life_check'' ia1);
                        gm2 = snd (send_stage gm1 seat ''stage_context'' ia2);
                        gm3 = snd (send_stage gm2 seat ''stage_chronicle_digest'' ia3);
                        gm4 = snd (send_stage gm3 seat ''stage_your_notes'' ia4);
                        (vote, gm5) = send_stage gm4 seat ''stage_vote'' ia5;
                        target = vote_target dz (players gm5) vote
                    in Inr (vr\<lparr>vr_votes := AList.update seat target (vr_votes vr)\<rparr>,
                            gm5\<lparr>chronicle := add_vote (chronicle gm5) (round_no gm5) seat target\<rparr>)))))"

subsection \<open>The roster over a match\<close>

text \<open>
  The other writes to a player's state: the day phase appends a note
  (\<open>player.notes.append\<close>), the witch phase stores the potion counters
  (\<open>witch.role_private["potions"] = potions\<close>), and the lynch sets \<open>alive\<close> to
  \<open>False\<close>, as \<open>mark_dead\<close> does.
\<close>

definition append_note :: "roster \<Rightarrow> int \<Rightarrow> player_note \<Rightarrow> roster" where
  "append_note ps seat n =
     (case map_of ps seat of
        None \<Rightarrow> ps
      | Some p \<Rightarrow> AList.update seat (p\<lparr>notes_of := notes_of p @ [n]\<rparr>) ps)"

definition store_potions :: "roster \<Rightarrow> int \<Rightarrow> potion_state \<Rightarrow> roster" where
  "store_potions ps seat pot =
     (case map_of ps seat of
        None \<Rightarrow> ps
      | Some p \<Rightarrow> AList.update seat (p\<lparr>role_private := (role_private p)\<lparr>potions := Some pot\<rparr>\<rparr>) ps)"

text \<open>
  The events of a match that write to the roster or to the recorded result, in any order:
  a trigger call, the death resolution of a night outcome, a lynch, a note, the potions, a
  call of the win evaluator. The game master writes to them nowhere else, so as far as the
  roster and the recorded result go, every run of it is such a sequence.
\<close>

datatype 'r match_event =
    Trigger "'r trigger_call"
  | NightDeaths NightOutcome
  | Lynched int
  | NoteWritten int player_note
  | PotionsStored int potion_state
  | Evaluated

fun match_step :: "digit_table \<Rightarrow> 'r GameMaster \<Rightarrow> 'r match_event \<Rightarrow> 'r GameMaster" where
  "match_step dz gm (Trigger c) = trigger_state dz gm c"
| "match_step dz gm (NightDeaths outcome) = snd (resolve_deaths (gm\<lparr>night_outcome := Some outcome\<rparr>))"
| "match_step dz gm (Lynched seat) = gm\<lparr>players := mark_dead (players gm) seat\<rparr>"
| "match_step dz gm (NoteWritten seat n) = gm\<lparr>players := append_note (players gm) seat n\<rparr>"
| "match_step dz gm (PotionsStored seat pot) = gm\<lparr>players := store_potions (players gm) seat pot\<rparr>"
| "match_step dz gm Evaluated = snd (is_finished gm)"

fun match_run :: "digit_table \<Rightarrow> 'r GameMaster \<Rightarrow> 'r match_event list \<Rightarrow> 'r GameMaster" where
  "match_run dz gm [] = gm"
| "match_run dz gm (e # es) = match_run dz (match_step dz gm e) es"

subsection \<open>The whole state over a match\<close>

text \<open>
  The remaining writes of the game master to its state, next to those to the roster and to
  the recorded result: a stage is sent (the log grows, and the agent may have drawn on the
  shared random source); \<open>_night_phase\<close> starts with a new outcome; the wolves' tally;
  the witch's heal and poison targets (an assignment to an outcome that is not there
  raises and leaves the state); \<open>_resolve_deaths\<close> on the outcome as it stands; a
  chronicle operation (the game master issues each for its current round; any round is
  admitted here); the head of \<open>_day_phase\<close>; \<open>self._day_spoken[seat] = True\<close>; the
  vote record is stored; the lynch draws on the random source; \<open>self.round_no += 1\<close>
  at the end of a round, in \<open>run_game\<close> and in web.py alike. \<open>gm.py\<close> and
  \<open>web.py\<close> assign to the state nowhere else, so every run of the game master, through
  any number of rounds, is such a sequence of events from \<open>new_game\<close>.
\<close>

datatype 'r game_event =
    RosterWrite "'r match_event"
  | StageSent int string "'r interaction"
  | NightBegins
  | WolvesTallied "int list"
  | Healed int
  | Poisoned int
  | DeathsResolved
  | Chronicled chron_op
  | DayBegins
  | Spoken int
  | VoteStored VoteRecord
  | RngDrawn 'r
  | RoundEnds

fun game_step :: "digit_table \<Rightarrow> 'r GameMaster \<Rightarrow> 'r game_event \<Rightarrow> 'r GameMaster" where
  "game_step dz gm (RosterWrite e) = match_step dz gm e"
| "game_step dz gm (StageSent seat stage_name ia) = snd (send_stage gm seat stage_name ia)"
| "game_step dz gm NightBegins = gm\<lparr>night_outcome := Some new_night_outcome\<rparr>"
| "game_step dz gm (WolvesTallied wolf_votes) =
     (case night_wolves_tally gm wolf_votes of Inl e \<Rightarrow> gm | Inr gm' \<Rightarrow> gm')"
| "game_step dz gm (Healed target) =
     gm\<lparr>night_outcome := map_option (\<lambda>outcome. outcome\<lparr>healed_target := Some target\<rparr>) (night_outcome gm)\<rparr>"
| "game_step dz gm (Poisoned target) =
     gm\<lparr>night_outcome := map_option (\<lambda>outcome. outcome\<lparr>poisoned_target := Some target\<rparr>) (night_outcome gm)\<rparr>"
| "game_step dz gm DeathsResolved = snd (resolve_deaths gm)"
| "game_step dz gm (Chronicled x) = gm\<lparr>chronicle := chron_step (chronicle gm) x\<rparr>"
| "game_step dz gm DayBegins = snd (day_phase_order gm)"
| "game_step dz gm (Spoken seat) = gm\<lparr>day_spoken := AList.update seat True (day_spoken gm)\<rparr>"
| "game_step dz gm (VoteStored vr) = gm\<lparr>vote_record := Some vr\<rparr>"
| "game_step dz gm (RngDrawn g) = gm\<lparr>rng := g\<rparr>"
| "game_step dz gm RoundEnds = gm\<lparr>round_no := round_no gm + 1\<rparr>"

fun game_run :: "digit_table \<Rightarrow> 'r GameMaster \<Rightarrow> 'r game_event list \<Rightarrow> 'r GameMaster" where
  "game_run dz gm [] = gm"
| "game_run dz gm (e # es) = game_run dz (game_step dz gm e) es"

section \<open>The default configuration (cli.py)\<close>

definition DEFAULT_PERSONAS :: "pystr list" where
  "DEFAULT_PERSONAS =
     [[20919, 38745, 35299, 35828],
      [27602, 33292, 36777, 25163],
      [20803, 27668, 20027, 25773],
      [27785, 31283, 20998, 26512, 24072],
      [38452, 37057, 35799, 20154],
      [32769, 32451, 33337, 38271]]"

definition DEFAULT_DIALECTS :: "pystr list" where
  "DEFAULT_DIALECTS =
     [[26222, 36890, 35805],
      [19996, 21271, 21475, 21619],
      [24029, 28189, 21619],
      [31908, 35821, 33108],
      [33487, 24030, 36719, 35821],
      [21488, 21619]]"

definition build_default_config :: GameConfig where
  "build_default_config =
     \<lparr>seating_plan =
       [\<lparr>seat_id = 1, role = WOLF, persona = DEFAULT_PERSONAS ! 0, dialect = DEFAULT_DIALECTS ! 0\<rparr>,
        \<lparr>seat_id = 2, role = WOLF, persona = DEFAULT_PERSONAS ! 1, dialect = DEFAULT_DIALECTS ! 1\<rparr>,
        \<lparr>seat_id = 3, role = WITCH, persona = DEFAULT_PERSONAS ! 2, dialect = DEFAULT_DIALECTS ! 2\<rparr>,
        \<lparr>seat_id = 4, role = HUNTER, persona = DEFAULT_PERSONAS ! 3, dialect = DEFAULT_DIALECTS ! 3\<rparr>,
        \<lparr>seat_id = 5, role = VILLAGER, persona = DEFAULT_PERSONAS ! 4, dialect = DEFAULT_DIALECTS ! 4\<rparr>,
        \<lparr>seat_id = 6, role = VILLAGER, persona = DEFAULT_PERSONAS ! 5, dialect = DEFAULT_DIALECTS ! 5\<rparr>],
      max_rounds = 10\<rparr>"

section \<open>Notions for the claims\<close>

text \<open>
  A later roster of the same match: the same seats in the same order with the same roles,
  and no seat alive that was dead before.
\<close>

definition never_revives :: "roster \<Rightarrow> roster \<Rightarrow> bool" where
  "never_revives ps ps' \<longleftrightarrow>
     list_all2 (\<lambda>(k, p) (k', p'). k' = k \<and> role p' = role p \<and> (alive p' \<longrightarrow> alive p)) ps ps'"

text \<open>The seat's ability-used flag is set.\<close>

definition has_shot :: "roster \<Rightarrow> int \<Rightarrow> bool" where
  "has_shot ps h \<longleftrightarrow> (\<exists>p. map_of ps h = Some p \<and> hunter_has_shot p)"

text \<open>The candidates of a vote sequence in the order of their first votes.\<close>

definition first_seen :: "int list \<Rightarrow> int list" where
  "first_seen ws = rev (remdups (rev ws))"

text \<open>
  The seats of a seating plan in the plan's own order, a seat that is listed twice standing
  where it is listed first; and whether the roster holds a seat as alive.
\<close>

definition seating_order :: "GameConfig \<Rightarrow> int list" where
  "seating_order cfg = first_seen (seat_ids cfg)"

definition alive_at :: "roster \<Rightarrow> int \<Rightarrow> bool" where
  "alive_at ps k = (case map_of ps k of None \<Rightarrow> False | Some p \<Rightarrow> alive p)"

text \<open>
  The chronicle operations that leave a recorded day order alone: all but \<open>ensure_round\<close>
  with an order.
\<close>

fun keeps_day_order :: "chron_op \<Rightarrow> bool" where
  "keeps_day_order (EnsureRound r (Some xs)) = False"
| "keeps_day_order x = True"

text \<open>The seats a step killed: alive before it, dead after it.\<close>

definition killed_between :: "roster \<Rightarrow> roster \<Rightarrow> int list" where
  "killed_between ps ps' =
     filter (\<lambda>k. (case map_of ps k of None \<Rightarrow> False | Some p \<Rightarrow> alive p) \<and>
                 (case map_of ps' k of None \<Rightarrow> False | Some p' \<Rightarrow> \<not> alive p'))
       (map fst ps)"

text \<open>How many trigger calls of a match on the seat \<open>h\<close> killed somebody.\<close>

fun shots_in :: "digit_table \<Rightarrow> int \<Rightarrow> 'r GameMaster \<Rightarrow> 'r match_event list \<Rightarrow> nat" where
  "shots_in dz h gm [] = 0"
| "shots_in dz h gm (Trigger c # es) =
     (if t_seat c = h \<and> killed_between (players gm) (players (trigger_state dz gm c)) \<noteq> []
      then 1 else 0) + shots_in dz h (trigger_state dz gm c) es"
| "shots_in dz h gm (e # es) = shots_in dz h (match_step dz gm e) es"

section \<open>The specification's wording, for comparison\<close>

text \<open>
  "The candidate that first reached the maximum count": going through the votes with
  running counts, the first candidate whose count becomes the largest final count.
\<close>

definition max_count :: "int list \<Rightarrow> nat" where
  "max_count ws = foldr (\<lambda>v m. max (count_list ws v) m) ws 0"

fun first_to_reach :: "nat \<Rightarrow> (int \<Rightarrow> nat) \<Rightarrow> int list \<Rightarrow> int option" where
  "first_to_reach m cnt [] = None"
| "first_to_reach m cnt (v # vs) =
     (if cnt v + 1 = m then Some v else first_to_reach m (cnt(v := cnt v + 1)) vs)"

definition spec_first_reached_max :: "int list \<Rightarrow> int option" where
  "spec_first_reached_max ws = first_to_reach (max_count ws) (\<lambda>v. 0) ws"

text \<open>
  The amended tie-break: the first vote of the sequence for a candidate whose final count
  no candidate's count exceeds.
\<close>

definition spec_first_seen_plurality :: "int list \<Rightarrow> int option" where
  "spec_first_seen_plurality ws = find (\<lambda>v. \<forall>u \<in> set ws. count_list ws u \<le> count_list ws v) ws"

text \<open>"The first alive seat of the antagonist faction", in the roster's order.\<close>

definition spec_first_alive_wolf :: "roster \<Rightarrow> int option" where
  "spec_first_alive_wolf ps =
     map_option fst (find (\<lambda>(seat, player). alive player \<and> role player = WOLF) ps)"

text \<open>"The currently-alive seats sorted in ascending seat-id order".\<close>

definition spec_alive_ascending :: "roster \<Rightarrow> int list" where
  "spec_alive_ascending ps = sort (alive_seats ps)"

text \<open>
  "The count of alive seats whose role is the antagonist faction", and of the others: the
  number of seats, whatever the roster's representation.
\<close>

definition spec_wolves_alive_count :: "roster \<Rightarrow> nat" where
  "spec_wolves_alive_count ps = card {k. \<exists>p. map_of ps k = Some p \<and> alive p \<and> role p = WOLF}"

definition spec_villagers_alive_count :: "roster \<Rightarrow> nat" where
  "spec_villagers_alive_count ps = card {k. \<exists>p. map_of ps k = Some p \<and> alive p \<and> role p \<noteq> WOLF}"

section \<open>Concrete inputs\<close>

text \<open>
  Thirteen day summaries for round 1 (one of them twice) and eight global summaries (one
  of them twice): more than either list holds.
\<close>

definition demo_ops :: "chron_op list" where
  "demo_ops =
     map (\<lambda>n. AppendDaySummary 1 [n]) [1, 2, 3, 4, 5, 6, 7, 3, 8, 9, 10, 11, 12] @
     map (\<lambda>n. RefreshGlobalSummary [n]) [1, 2, 3, 2, 4, 5, 6, 7]"

text \<open>
  A new match on the default configuration; an agent that gives no reply; a vote for
  seat 9, which the match does not have; an empty vote record.
\<close>

definition game0 :: "nat GameMaster" where
  "game0 = new_game build_default_config 42"

definition silent :: "nat interaction" where
  "silent = \<lparr>i_prompt_text = [], i_response = None, i_rng = 42\<rparr>"

definition vote_for_9 :: "nat interaction" where
  "vote_for_9 = \<lparr>i_prompt_text = [], i_response = Some (LB # kw_vote @ [RB, ZUO, WEI, 57]), i_rng = 42\<rparr>"

definition vote_record0 :: VoteRecord where
  "vote_record0 = \<lparr>vr_round_no = 1, vr_votes = [], vr_lynched = None\<rparr>"

text \<open>The default match once both wolves, seats 1 and 2, have been lynched.\<close>

definition wolves_gone :: "nat GameMaster" where
  "wolves_gone = match_run [48] game0 [Lynched 1, Lynched 2]"

text \<open>
  Two night outcomes on the default match: the wolves kill seat 5 and seat 6 is poisoned,
  with the heal on seat 3 and with the heal on seat 5.
\<close>

definition heal_elsewhere :: NightOutcome where
  "heal_elsewhere = \<lparr>kill_target = Some 5, healed_target = Some 3, poisoned_target = Some 6\<rparr>"

definition heal_exact :: NightOutcome where
  "heal_exact = \<lparr>kill_target = Some 5, healed_target = Some 5, poisoned_target = Some 6\<rparr>"

text \<open>
  The default match at the start of its second day: the wolves are introduced; in the first
  night they kill seat 5, the first day lynches seat 1, and in the second night seat 6 is
  killed. Seats 2, 3 and 4 are left.
\<close>

definition second_day_events :: "nat game_event list" where
  "second_day_events =
     [StageSent 1 ''stage_wolf_intro'' silent,
      NightBegins, WolvesTallied [5, 5], Chronicled (SetNightSummary 1 [[107, 53]]),
      DeathsResolved, Chronicled (RefreshGlobalSummary [110, 49]),
      DayBegins, Spoken 1, RosterWrite (Lynched 1), Chronicled (SetLynch 1 (Some 1)),
      RoundEnds,
      NightBegins, WolvesTallied [6], Chronicled (SetNightSummary 2 [[107, 54]]),
      DeathsResolved, Chronicled (RefreshGlobalSummary [110, 50])]"

definition second_day :: "nat GameMaster" where
  "second_day = game_run [48] game0 second_day_events"

text \<open>
  What the second day writes to the chronicle after the order: an utterance, its summary, a
  vote, the lynch.
\<close>

definition second_day_ops :: "chron_op list" where
  "second_day_ops = [AddDayUtterance 2 2 1 [104, 105] [104, 105], AppendDaySummary 2 [104, 105],
                     AddVote 2 2 (Some 3), SetLynch 2 (Some 3), RefreshGlobalSummary [104, 105]]"

text \<open>A configuration whose seating plan does not list the seats in ascending order.\<close>

definition shuffled_config :: GameConfig where
  "shuffled_config =
     \<lparr>seating_plan =
       [\<lparr>seat_id = 2, role = VILLAGER, persona = DEFAULT_PERSONAS ! 0, dialect = DEFAULT_DIALECTS ! 0\<rparr>,
        \<lparr>seat_id = 1, role = WOLF, persona = DEFAULT_PERSONAS ! 1, dialect = DEFAULT_DIALECTS ! 1\<rparr>,
        \<lparr>seat_id = 3, role = VILLAGER, persona = DEFAULT_PERSONAS ! 2, dialect = DEFAULT_DIALECTS ! 2\<rparr>,
        \<lparr>seat_id = 4, role = VILLAGER, persona = DEFAULT_PERSONAS ! 3, dialect = DEFAULT_DIALECTS ! 3\<rparr>],
      max_rounds = 10\<rparr>"

text \<open>The match on that plan at the start of its first day, seat 3 killed in the night.\<close>

definition shuffled_day_events :: "nat game_event list" where
  "shuffled_day_events =
     [NightBegins, WolvesTallied [3], Chronicled (SetNightSummary 1 [[107, 51]]), DeathsResolved]"

definition shuffled_day :: "nat GameMaster" where
  "shuffled_day = game_run [48] (new_game shuffled_config 42) shuffled_day_events"

text \<open>
  The default match with the hunter, seat 4, lynched and its ability unused; replies that shoot
  seat 1 and seat 2, a reply that declines to shoot, an empty reply; two trigger calls on
  seat 4.
\<close>

definition hunter_down :: "nat GameMaster" where
  "hunter_down = match_run [48] game0 [Lynched 4]"

definition shoot_1 :: "nat interaction" where
  "shoot_1 = \<lparr>i_prompt_text = [], i_response = Some (LB # kw_shoot @ RB # ZUO # WEI # 49 # []), i_rng = 42\<rparr>"

definition shoot_2 :: "nat interaction" where
  "shoot_2 = \<lparr>i_prompt_text = [], i_response = Some (LB # kw_shoot @ RB # ZUO # WEI # 50 # []), i_rng = 42\<rparr>"

definition no_shot_reply :: "nat interaction" where
  "no_shot_reply = \<lparr>i_prompt_text = [], i_response = Some [12304, 19981, 24320, 26538, 12305], i_rng = 42\<rparr>"

definition empty_reply :: "nat interaction" where
  "empty_reply = \<lparr>i_prompt_text = [], i_response = Some [], i_rng = 42\<rparr>"

definition first_call :: "nat trigger_call" where
  "first_call = \<lparr>t_seat = 4, t_cause = ''night'', t_reply = shoot_1\<rparr>"

definition second_call :: "nat trigger_call" where
  "second_call = \<lparr>t_seat = 4, t_cause = ''lynch'', t_reply = shoot_2\<rparr>"

section \<open>Properties of the chronicle\<close>

lemma ensure_round_global: "global_summary (fst (ensure_round c r ord)) = global_summary c"
  by (simp add: ensure_round_def Let_def split: option.splits)

lemma ensure_round_snd: "rounds (fst (ensure_round c r ord)) r = Some (snd (ensure_round c r ord))"
  by (simp add: ensure_round_def Let_def split: option.splits)

lemma ensure_round_other:
  "r' \<noteq> r \<Longrightarrow> rounds (fst (ensure_round c r ord)) r' = rounds c r'"
  by (simp add: ensure_round_def Let_def split: option.splits)

lemma ensure_round_summary:
  "summary_10 (day (snd (ensure_round c r ord))) =
     (case rounds c r of None \<Rightarrow> [] | Some rec \<Rightarrow> summary_10 (day rec))"
  by (simp add: ensure_round_def new_round_def Let_def split: option.splits)

lemma ensure_round_ok: "summaries_ok c \<Longrightarrow> summaries_ok (fst (ensure_round c r ord))"
  unfolding summaries_ok_def
  by (auto simp: ensure_round_def new_round_def Let_def split: option.splits if_splits)

lemma put_round_ok:
  "summaries_ok c \<Longrightarrow> length (summary_10 (day r)) \<le> 10 \<Longrightarrow> distinct (summary_10 (day r)) \<Longrightarrow>
   summaries_ok (put_round c n r)"
  unfolding summaries_ok_def by (auto simp: put_round_def)

lemma ensure_round_snd_ok:
  "summaries_ok c \<Longrightarrow>
   length (summary_10 (day (snd (ensure_round c r ord)))) \<le> 10 \<and>
   distinct (summary_10 (day (snd (ensure_round c r ord))))"
  unfolding summaries_ok_def by (auto simp: ensure_round_summary split: option.splits)

lemma log_night_event_ok: "summaries_ok c \<Longrightarrow> summaries_ok (log_night_event c r ev)"
  using ensure_round_ok [of c r None] ensure_round_snd_ok [of c r None]
  by (auto simp: log_night_event_def Let_def split: prod.splits intro!: put_round_ok)

lemma set_night_summary_ok: "summaries_ok c \<Longrightarrow> summaries_ok (set_night_summary c r s)"
  using ensure_round_ok [of c r None] ensure_round_snd_ok [of c r None]
  by (auto simp: set_night_summary_def Let_def split: prod.splits intro!: put_round_ok)

lemma add_day_utterance_ok: "summaries_ok c \<Longrightarrow> summaries_ok (add_day_utterance c r seat idx txt one)"
  using ensure_round_ok [of c r None] ensure_round_snd_ok [of c r None]
  by (auto simp: add_day_utterance_def Let_def split: prod.splits intro!: put_round_ok)

lemma add_vote_ok: "summaries_ok c \<Longrightarrow> summaries_ok (add_vote c r f t)"
  using ensure_round_ok [of c r None] ensure_round_snd_ok [of c r None]
  by (auto simp: add_vote_def Let_def split: prod.splits intro!: put_round_ok)

lemma set_lynch_ok: "summaries_ok c \<Longrightarrow> summaries_ok (set_lynch c r seat)"
  using ensure_round_ok [of c r None] ensure_round_snd_ok [of c r None]
  by (auto simp: set_lynch_def Let_def split: prod.splits intro!: put_round_ok)

lemma take_snoc_distinct: "distinct xs \<Longrightarrow> s \<notin> set xs \<Longrightarrow> distinct (take n (xs @ [s]))"
  by (rule distinct_take) simp

lemma drop_snoc_distinct: "distinct xs \<Longrightarrow> s \<notin> set xs \<Longrightarrow> distinct (drop n (xs @ [s]))"
  by (rule distinct_drop) simp

lemma append_day_summary_ok: "summaries_ok c \<Longrightarrow> summaries_ok (append_day_summary c r s)"
  using ensure_round_ok [of c r None] ensure_round_snd_ok [of c r None]
  by (auto simp: append_day_summary_def Let_def take_snoc_distinct simp del: take_append
           split: prod.splits intro!: put_round_ok)

lemma refresh_global_summary_ok: "summaries_ok c \<Longrightarrow> summaries_ok (refresh_global_summary c txt)"
  unfolding summaries_ok_def
  by (auto simp: refresh_global_summary_def Let_def drop_snoc_distinct simp del: drop_append)

lemma chron_step_ok: "summaries_ok c \<Longrightarrow> summaries_ok (chron_step c x)"
  by (cases x)
     (simp_all add: ensure_round_ok log_night_event_ok set_night_summary_ok add_day_utterance_ok
        add_vote_ok set_lynch_ok append_day_summary_ok refresh_global_summary_ok)

lemma chron_run_ok: "summaries_ok c \<Longrightarrow> summaries_ok (chron_run c xs)"
  by (induction xs arbitrary: c) (simp_all add: chron_step_ok)

lemma new_chronicle_ok: "summaries_ok (new_chronicle ss)"
  by (simp add: summaries_ok_def new_chronicle_def)

lemma ensure_round_None_order:
  "rounds c r = Some rec \<Longrightarrow> ensure_round c n None = (c1, r1) \<Longrightarrow>
   rounds c1 r = Some rec \<and> (n = r \<longrightarrow> r1 = rec)"
  by (auto simp: ensure_round_def Let_def split: option.splits)

lemma chron_step_keeps_order:
  assumes "keeps_day_order x" and "rounds c r = Some rec"
  shows "\<exists>rec'. rounds (chron_step c x) r = Some rec' \<and> order (day rec') = order (day rec)"
proof (cases x)
  case (EnsureRound n xs)
  with assms show ?thesis
    by (cases xs) (auto simp: ensure_round_def Let_def split: option.splits)
next
  case (RefreshGlobalSummary t)
  with assms show ?thesis by (simp add: refresh_global_summary_def Let_def)
qed (use assms in \<open>auto simp: log_night_event_def set_night_summary_def add_day_utterance_def
       add_vote_def set_lynch_def append_day_summary_def put_round_def
       split: prod.splits dest: ensure_round_None_order\<close>)

lemma chron_run_keeps_order:
  "list_all keeps_day_order xs \<Longrightarrow> rounds c r = Some rec \<Longrightarrow>
   \<exists>rec'. rounds (chron_run c xs) r = Some rec' \<and> order (day rec') = order (day rec)"
proof (induction xs arbitrary: c rec)
  case Nil
  then show ?case by simp
next
  case (Cons x xs)
  from Cons.prems have k: "keeps_day_order x" and ks: "list_all keeps_day_order xs" by simp_all
  from chron_step_keeps_order [OF k Cons.prems(2)] obtain rec1 where
    r1: "rounds (chron_step c x) r = Some rec1" and o1: "order (day rec1) = order (day rec)" by blast
  from Cons.IH [OF ks r1] o1 show ?case by simp
qed

text \<open>
  C8. After every sequence of chronicle operations on a new chronicle, the global summary
  has at most 6 entries, every round's day summary has at most 10 entries, and neither
  list holds the same text twice.
\<close>

theorem C8_summaries_bounded_distinct:
  "length (global_summary (chron_run (new_chronicle ss) ops)) \<le> 6 \<and>
   distinct (global_summary (chron_run (new_chronicle ss) ops)) \<and>
   (\<forall>r rec. rounds (chron_run (new_chronicle ss) ops) r = Some rec \<longrightarrow>
      length (summary_10 (day rec)) \<le> 10 \<and> distinct (summary_10 (day rec)))"
  using chron_run_ok [OF new_chronicle_ok, of ss ops] unfolding summaries_ok_def .

text \<open>The demonstration run fills both lists to their bounds.\<close>

lemma demo_run:
  "global_summary (chron_run (new_chronicle [1, 2]) demo_ops) = [[2], [3], [4], [5], [6], [7]] \<and>
   map_option (\<lambda>r. summary_10 (day r)) (rounds (chron_run (new_chronicle [1, 2]) demo_ops) 1) =
     Some [[1], [2], [3], [4], [5], [6], [7], [8], [9], [10]]"
  by (simp add: demo_ops_def new_chronicle_def append_day_summary_def refresh_global_summary_def
        ensure_round_def put_round_def new_round_def first_night_text_def Let_def)

theorem C8_witness:
  "\<exists>rec. rounds (chron_run (new_chronicle [1, 2]) demo_ops) 1 = Some rec \<and>
     summary_10 (day rec) = [[1], [2], [3], [4], [5], [6], [7], [8], [9], [10]] \<and>
     length (summary_10 (day rec)) \<le> 10 \<and> distinct (summary_10 (day rec)) \<and>
     length (global_summary (chron_run (new_chronicle [1, 2]) demo_ops)) \<le> 6 \<and>
     distinct (global_summary (chron_run (new_chronicle [1, 2]) demo_ops))"
proof -
  from demo_run obtain rec where
    r: "rounds (chron_run (new_chronicle [1, 2]) demo_ops) 1 = Some rec"
    and s: "summary_10 (day rec) = [[1], [2], [3], [4], [5], [6], [7], [8], [9], [10]]"
    by auto
  from C8_summaries_bounded_distinct [of "[1, 2]" demo_ops] r s show ?thesis
    by blast
qed

section \<open>Properties of the directive parser\<close>

lemma decimal_value_less: "decimal_value dz c = Some v \<Longrightarrow> v < 10"
  by (induction dz) (auto split: if_splits)

lemma match_here_seat: "match_here dz s = Some (a, v, rest) \<Longrightarrow> v < 10"
  by (cases s) (auto simp: Let_def split: if_splits list.splits option.splits dest: decimal_value_less)

lemma finditer_seats: "(a, v) \<in> set (finditer dz s) \<Longrightarrow> v < 10"
proof (induction dz s rule: finditer.induct)
  case (1 dz)
  then show ?case by simp
next
  case (2 dz c cs)
  show ?case
  proof (cases "match_here dz (c # cs)")
    case None
    with 2 show ?thesis by (simp del: match_here.simps)
  next
    case (Some m)
    obtain a' v' rest where m: "m = (a', v', rest)" by (cases m)
    from Some m have "v' < 10" by (auto dest: match_here_seat simp del: match_here.simps)
    with 2 Some m show ?thesis by (auto simp del: match_here.simps)
  qed
qed

lemma first_action_in: "first_action kw ms = Some i \<Longrightarrow> \<exists>v. i = int v \<and> (kw, v) \<in> set ms"
  by (induction ms) (auto split: if_splits)

lemma parse_directive_range: "parse_directive dz s kw = Some i \<Longrightarrow> 0 \<le> i \<and> i \<le> 9"
  unfolding parse_directive_def
  by (auto dest!: first_action_in finditer_seats)

lemma takeWhile_stop: "x \<notin> set ys \<Longrightarrow> takeWhile (\<lambda>c. c \<noteq> x) (ys @ x # zs) = ys"
  by (induction ys) auto

lemma dropWhile_stop: "x \<notin> set ys \<Longrightarrow> dropWhile (\<lambda>c. c \<noteq> x) (ys @ x # zs) = x # zs"
  by (induction ys) auto

lemma match_here_directive:
  assumes "kw \<noteq> []" "RB \<notin> set kw" "decimal_value dz d = Some v"
  shows "match_here dz (LB # kw @ RB # ZUO # WEI # d # zs) = Some (kw, v, zs)"
  using assms by (simp add: takeWhile_stop dropWhile_stop Let_def del: takeWhile_append dropWhile_append)

lemma parse_directive_first_digit:
  assumes "kw \<noteq> []" "RB \<notin> set kw" "decimal_value dz d = Some v"
  shows "parse_directive dz (LB # kw @ RB # ZUO # WEI # d # zs) kw = Some (int v)"
  using match_here_directive [OF assms, of zs]
  by (simp add: parse_directive_def del: match_here.simps)

text \<open>
  C10. Whatever the reply and the keyword, a parsed seat is a number from 0 to 9; and a
  directive for the keyword at the head of the reply is read as its first digit alone,
  whatever follows that digit, further digits included. No seat above 9 is ever parsed.
\<close>

theorem C10_single_digit_seats:
  "(\<forall>i. parse_directive dz s kw = Some i \<longrightarrow> 0 \<le> i \<and> i \<le> 9) \<and>
   (kw \<noteq> [] \<and> RB \<notin> set kw \<and> decimal_value dz d = Some v \<longrightarrow>
      parse_directive dz (LB # kw @ RB # ZUO # WEI # d # zs) kw = Some (int v) \<and> v \<le> 9)"
proof (intro conjI allI impI)
  fix i assume "parse_directive dz s kw = Some i"
  then show "0 \<le> i" and "i \<le> 9" using parse_directive_range by blast+
next
  assume h: "kw \<noteq> [] \<and> RB \<notin> set kw \<and> decimal_value dz d = Some v"
  then show "parse_directive dz (LB # kw @ RB # ZUO # WEI # d # zs) kw = Some (int v)"
    by (simp add: parse_directive_first_digit)
  from h have "v < 10" by (auto dest: decimal_value_less)
  then show "v \<le> 9" by simp
qed

text \<open>The kill directive for "seat 12", in ASCII digits, is read as seat 1.\<close>

theorem C10_witness:
  "kw_kill \<noteq> [] \<and> RB \<notin> set kw_kill \<and> decimal_value [48] 49 = Some 1 \<and>
   parse_directive [48] (LB # kw_kill @ RB # ZUO # WEI # 49 # [50]) kw_kill = Some 1"
  using C10_single_digit_seats [of "[48]" "[]" kw_kill 49 1 "[50]"]
  by (simp add: kw_kill_def RB_def)

section \<open>Properties of the roster over a match\<close>

subsection \<open>Nobody is revived\<close>

lemma never_revives_refl: "never_revives ps ps"
  by (simp add: never_revives_def list_all2_refl case_prod_beta)

lemma never_revives_trans:
  "never_revives ps ps' \<Longrightarrow> never_revives ps' ps'' \<Longrightarrow> never_revives ps ps''"
  unfolding never_revives_def
  by (erule (1) list_all2_trans [rotated]) auto

lemma never_revives_keys: "never_revives ps ps' \<Longrightarrow> map fst ps' = map fst ps"
  unfolding never_revives_def
  by (induction ps ps' rule: list_all2_induct) auto

lemma never_revives_no_wolves:
  "never_revives ps ps' \<Longrightarrow> filter (\<lambda>p. alive p \<and> role p = WOLF) (map snd ps) = [] \<Longrightarrow>
   filter (\<lambda>p. alive p \<and> role p = WOLF) (map snd ps') = []"
  unfolding never_revives_def
  by (induction ps ps' rule: list_all2_induct) (auto split: if_splits)

lemma update_never_revives:
  "map_of ps k = Some p \<Longrightarrow> role p' = role p \<Longrightarrow> (alive p' \<longrightarrow> alive p) \<Longrightarrow>
   never_revives ps (AList.update k p' ps)"
  unfolding never_revives_def
  by (induction ps) (auto simp: list_all2_refl case_prod_beta split: if_splits)

lemma mark_dead_never_revives: "never_revives ps (mark_dead ps k)"
  by (auto simp: mark_dead_def set_dead_def never_revives_refl update_never_revives split: option.splits)

lemma mark_shot_never_revives: "never_revives ps (mark_shot ps k)"
  by (auto simp: mark_shot_def never_revives_refl update_never_revives split: option.splits)

lemma foldl_mark_dead_never_revives: "never_revives ps (foldl mark_dead ps ks)"
proof (induction ks arbitrary: ps)
  case Nil
  show ?case by (simp add: never_revives_refl)
next
  case (Cons k ks)
  have "never_revives ps (mark_dead ps k)" by (rule mark_dead_never_revives)
  moreover have "never_revives (mark_dead ps k) (foldl mark_dead (mark_dead ps k) ks)" by (rule Cons.IH)
  ultimately show ?case by (simp add: never_revives_trans)
qed

lemma resolve_deaths_never_revives: "never_revives (players gm) (players (snd (resolve_deaths gm)))"
  by (simp add: resolve_deaths_def Let_def never_revives_refl foldl_mark_dead_never_revives
        split: option.splits)

lemma set_dead_never_revives: "set_dead ps k = Inr ps' \<Longrightarrow> never_revives ps ps'"
  by (auto simp: set_dead_def update_never_revives split: option.splits)

lemma trigger_never_revives:
  "never_revives (players gm) (players (trigger_state dz gm c))"
  by (auto simp: trigger_state_def trigger_hunter_if_needed_def Let_def send_stage_def
        never_revives_refl mark_shot_never_revives
        split: option.splits sum.splits prod.splits if_splits
        dest!: set_dead_never_revives
        intro: never_revives_trans [OF _ mark_shot_never_revives])

lemma is_finished_cases:
  "is_finished gm =
     (if length (filter (\<lambda>p. alive p \<and> role p = WOLF) (map snd (players gm))) = 0
      then (True, gm\<lparr>result := ''villagers_win''\<rparr>)
      else if length (filter (\<lambda>p. alive p \<and> role p \<noteq> WOLF) (map snd (players gm)))
              \<le> length (filter (\<lambda>p. alive p \<and> role p = WOLF) (map snd (players gm)))
      then (True, gm\<lparr>result := ''wolves_win''\<rparr>)
      else (False, gm))"
  by (simp add: is_finished_def Let_def)

lemma is_finished_players: "players (snd (is_finished gm)) = players gm"
  by (simp add: is_finished_cases)

lemma append_note_never_revives: "never_revives ps (append_note ps k n)"
  by (auto simp: append_note_def never_revives_refl update_never_revives split: option.splits)

lemma store_potions_never_revives: "never_revives ps (store_potions ps k pot)"
  by (auto simp: store_potions_def never_revives_refl update_never_revives split: option.splits)

lemma match_step_never_revives: "never_revives (players gm) (players (match_step dz gm e))"
proof (cases e)
  case (NightDeaths outcome)
  with resolve_deaths_never_revives [of "gm\<lparr>night_outcome := Some outcome\<rparr>"]
  show ?thesis by simp
qed (simp_all add: trigger_never_revives mark_dead_never_revives append_note_never_revives
       store_potions_never_revives is_finished_players never_revives_refl)

lemma match_run_never_revives: "never_revives (players gm) (players (match_run dz gm es))"
proof (induction es arbitrary: gm)
  case Nil
  show ?case by (simp add: never_revives_refl)
next
  case (Cons e es)
  have "never_revives (players gm) (players (match_step dz gm e))"
    by (rule match_step_never_revives)
  moreover have "never_revives (players (match_step dz gm e)) (players (match_run dz (match_step dz gm e) es))"
    by (rule Cons.IH)
  ultimately show ?case by (simp add: never_revives_trans)
qed

lemma fst_foldl_pair:
  "fst (foldl (\<lambda>(a, b) x. (F a x, G b x)) (a0, b0) xs) = foldl F a0 xs"
  by (induction xs arbitrary: a0 b0) auto

lemma initialise_players_distinct: "distinct (map fst (fst (initialise_players plan)))"
proof -
  have "distinct (map fst ps) \<Longrightarrow>
        distinct (map fst (foldl (\<lambda>ps x. AList.update (k x) (v x) ps) ps xs))"
    for ps :: roster and xs :: "SeatConfig list" and k v
    by (induction xs arbitrary: ps) (simp_all add: distinct_update)
  from this [of "[]"] show ?thesis
    by (simp add: initialise_players_def Let_def fst_foldl_pair)
qed

lemma match_run_distinct: "distinct (map fst (players (match_run dz (new_game cfg g) es)))"
proof -
  have "map fst (players (match_run dz (new_game cfg g) es)) = map fst (players (new_game cfg g))"
    using match_run_never_revives by (rule never_revives_keys)
  then show ?thesis by (simp add: new_game_def initialise_players_distinct)
qed

subsection \<open>The ability-used flag is never cleared\<close>

lemma send_stage_players: "players (snd (send_stage gm seat st ia)) = players gm"
  by (simp add: send_stage_def)

lemma killed_between_same: "killed_between ps ps = []"
  by (auto simp: killed_between_def filter_empty_conv split: option.splits)

lemma map_of_mark_shot:
  "map_of (mark_shot ps k) k' =
     (if k' = k then map_option (\<lambda>p. p\<lparr>hunter_has_shot := True\<rparr>) (map_of ps k) else map_of ps k')"
  by (auto simp: mark_shot_def update_conv' split: option.splits)

lemma killed_between_mark_shot: "killed_between ps (mark_shot ps k) = []"
  by (auto simp: killed_between_def filter_empty_conv map_of_mark_shot split: option.splits)

lemma map_of_set_dead:
  "set_dead ps k = Inr ps' \<Longrightarrow>
   map_of ps' k' = (if k' = k then map_option (\<lambda>p. p\<lparr>alive := False\<rparr>) (map_of ps k) else map_of ps k')"
  by (auto simp: set_dead_def update_conv' split: option.splits)

lemma has_shot_mark_shot: "has_shot ps h \<Longrightarrow> has_shot (mark_shot ps k) h"
  by (auto simp: has_shot_def map_of_mark_shot)

lemma has_shot_set_dead: "set_dead ps k = Inr ps' \<Longrightarrow> has_shot ps h \<Longrightarrow> has_shot ps' h"
  by (auto simp: has_shot_def map_of_set_dead)

lemma mark_shot_sets: "map_of ps h \<noteq> None \<Longrightarrow> has_shot (mark_shot ps h) h"
  by (auto simp: has_shot_def map_of_mark_shot)

lemma trigger_noop:
  "has_shot (players gm) h \<Longrightarrow> trigger_hunter_if_needed dz gm h cause ia = Inr gm"
  by (auto simp: has_shot_def trigger_hunter_if_needed_def)

lemma trigger_state_noop: "has_shot (players gm) (t_seat c) \<Longrightarrow> trigger_state dz gm c = gm"
  by (simp add: trigger_state_def trigger_noop)

lemma trigger_state_keeps_shot:
  "has_shot (players gm) h \<Longrightarrow> has_shot (players (trigger_state dz gm c)) h"
  by (auto simp: trigger_state_def trigger_hunter_if_needed_def Let_def send_stage_def
        has_shot_mark_shot
        split: option.splits sum.splits prod.splits if_splits
        dest: has_shot_set_dead [THEN has_shot_mark_shot])

lemma update_keeps_shot:
  "has_shot ps h \<Longrightarrow> map_of ps k = Some p \<Longrightarrow> hunter_has_shot p' = hunter_has_shot p \<Longrightarrow>
   has_shot (AList.update k p' ps) h"
  by (auto simp: has_shot_def update_conv')

lemma mark_dead_keeps_shot: "has_shot ps h \<Longrightarrow> has_shot (mark_dead ps k) h"
  by (auto simp: mark_dead_def set_dead_def update_keeps_shot split: option.splits)

lemma foldl_mark_dead_keeps_shot: "has_shot ps h \<Longrightarrow> has_shot (foldl mark_dead ps ks) h"
  by (induction ks arbitrary: ps) (simp_all add: mark_dead_keeps_shot)

lemma append_note_keeps_shot: "has_shot ps h \<Longrightarrow> has_shot (append_note ps k n) h"
  by (auto simp: append_note_def update_keeps_shot split: option.splits)

lemma store_potions_keeps_shot: "has_shot ps h \<Longrightarrow> has_shot (store_potions ps k pot) h"
  by (auto simp: store_potions_def update_keeps_shot split: option.splits)

lemma match_step_keeps_shot:
  "has_shot (players gm) h \<Longrightarrow> has_shot (players (match_step dz gm e)) h"
  by (cases e)
     (simp_all add: trigger_state_keeps_shot resolve_deaths_def Let_def foldl_mark_dead_keeps_shot
        mark_dead_keeps_shot append_note_keeps_shot store_potions_keeps_shot is_finished_players
        split: option.splits)

lemma match_run_keeps_shot:
  "has_shot (players gm) h \<Longrightarrow> has_shot (players (match_run dz gm es)) h"
  by (induction es arbitrary: gm) (simp_all add: match_step_keeps_shot)

subsection \<open>The concrete rosters\<close>

lemma view_keys:
  "map fst ps = map fst (map (\<lambda>(k, p). (k, role p, alive p, hunter_has_shot p)) ps)"
  by (induction ps) auto

lemma view_lookup:
  "map_option (\<lambda>p. (role p, alive p, hunter_has_shot p)) (map_of ps k) =
   map_of (map (\<lambda>(k, p). (k, role p, alive p, hunter_has_shot p)) ps) k"
  by (induction ps) auto

lemma view_wolves:
  "length (filter (\<lambda>p. alive p \<and> role p = WOLF) (map snd ps)) =
   length (filter (\<lambda>(k, r, a, h). a \<and> r = WOLF) (map (\<lambda>(k, p). (k, role p, alive p, hunter_has_shot p)) ps))"
  by (induction ps) auto

lemma view_villagers:
  "length (filter (\<lambda>p. alive p \<and> role p \<noteq> WOLF) (map snd ps)) =
   length (filter (\<lambda>(k, r, a, h). a \<and> r \<noteq> WOLF) (map (\<lambda>(k, p). (k, role p, alive p, hunter_has_shot p)) ps))"
  by (induction ps) auto

lemma game0_roster_view:
  "map (\<lambda>(k, p). (k, role p, alive p, hunter_has_shot p)) (players game0) =
   [(1, WOLF, True, False), (2, WOLF, True, False), (3, WITCH, True, False),
    (4, HUNTER, True, False), (5, VILLAGER, True, False), (6, VILLAGER, True, False)]"
  by (simp add: game0_def new_game_def build_default_config_def initialise_players_def
        initial_player_def Let_def)

lemma game0_distinct: "distinct (map fst (players game0))"
  by (simp add: view_keys [of "players game0"] game0_roster_view)

lemma wolves_gone_roster_view:
  "map (\<lambda>(k, p). (k, role p, alive p, hunter_has_shot p)) (players wolves_gone) =
   [(1, WOLF, False, False), (2, WOLF, False, False), (3, WITCH, True, False),
    (4, HUNTER, True, False), (5, VILLAGER, True, False), (6, VILLAGER, True, False)]"
  by (simp add: wolves_gone_def game0_def new_game_def build_default_config_def
        initialise_players_def initial_player_def Let_def mark_dead_def set_dead_def)

lemma wolves_gone_distinct: "distinct (map fst (players wolves_gone))"
  by (simp add: view_keys [of "players wolves_gone"] wolves_gone_roster_view)

lemma hunter_down_view:
  "map (\<lambda>(k, p). (k, role p, alive p, hunter_has_shot p)) (players hunter_down) =
   [(1, WOLF, True, False), (2, WOLF, True, False), (3, WITCH, True, False),
    (4, HUNTER, False, False), (5, VILLAGER, True, False), (6, VILLAGER, True, False)]"
  by (simp add: hunter_down_def game0_def new_game_def build_default_config_def
        initialise_players_def initial_player_def Let_def mark_dead_def set_dead_def)

section \<open>Properties of the death resolution\<close>

lemma map_of_mark_dead:
  "map_of (mark_dead ps k) k' =
     (if k' = k then map_option (\<lambda>p. p\<lparr>alive := False\<rparr>) (map_of ps k) else map_of ps k')"
  by (auto simp: mark_dead_def set_dead_def update_conv' split: option.splits)

lemma map_of_foldl_mark_dead:
  "map_of (foldl mark_dead ps ks) k' =
     (if k' \<in> set ks then map_option (\<lambda>p. p\<lparr>alive := False\<rparr>) (map_of ps k') else map_of ps k')"
proof (induction ks arbitrary: ps)
  case Nil
  show ?case by simp
next
  case (Cons k ks)
  show ?case
    by (simp add: Cons.IH map_of_mark_dead option.map_comp comp_def)
qed

lemma set_unique_deaths:
  "set (unique_deaths ps acc ds) =
     set acc \<union> {s \<in> set ds. \<exists>p. map_of ps s = Some p \<and> alive p}"
  by (induction ds arbitrary: acc) (auto split: option.splits)

lemma distinct_unique_deaths: "distinct acc \<Longrightarrow> distinct (unique_deaths ps acc ds)"
  by (induction ds arbitrary: acc) auto

lemma resolve_deaths_some:
  assumes "night_outcome gm = Some outcome"
  shows "fst (resolve_deaths gm) = unique_deaths (players gm) [] (night_deaths outcome)"
    and "snd (resolve_deaths gm) =
           gm\<lparr>players := foldl mark_dead (players gm) (unique_deaths (players gm) [] (night_deaths outcome))\<rparr>"
  using assms by (simp_all add: resolve_deaths_def Let_def)

lemma dies_if_listed:
  assumes "night_outcome gm = Some outcome" and "s \<in> set (night_deaths outcome)"
    and "map_of (players gm) s = Some p"
  shows "(\<exists>p'. map_of (players (snd (resolve_deaths gm))) s = Some p' \<and> \<not> alive p') \<and>
         (alive p \<longrightarrow> s \<in> set (fst (resolve_deaths gm)))"
  using assms
  by (auto simp: resolve_deaths_some map_of_foldl_mark_dead set_unique_deaths)

lemma untouched_if_not_listed:
  assumes "night_outcome gm = Some outcome" and "s \<notin> set (night_deaths outcome)"
  shows "map_of (players (snd (resolve_deaths gm))) s = map_of (players gm) s \<and>
         s \<notin> set (fst (resolve_deaths gm))"
  using assms
  by (auto simp: resolve_deaths_some map_of_foldl_mark_dead set_unique_deaths)

text \<open>
  C1. For every night outcome and every roster: a kill target that is a seat of the roster
  and is not the healed target is dead after the resolution, and is in the death list when
  it was alive; so is the poisoned target, whatever was healed; a kill target that is the
  healed target (and not poisoned) is left as it was; and a heal on any other seat changes
  neither the death list nor the roster.
\<close>

theorem C1_death_resolution:
  assumes "night_outcome gm = Some outcome"
  shows "(kill_target outcome = Some k \<and> healed_target outcome \<noteq> Some k \<and>
            map_of (players gm) k = Some p \<longrightarrow>
            (\<exists>p'. map_of (players (snd (resolve_deaths gm))) k = Some p' \<and> \<not> alive p') \<and>
            (alive p \<longrightarrow> k \<in> set (fst (resolve_deaths gm)))) \<and>
         (poisoned_target outcome = Some q \<and> map_of (players gm) q = Some pq \<longrightarrow>
            (\<exists>p'. map_of (players (snd (resolve_deaths gm))) q = Some p' \<and> \<not> alive p') \<and>
            (alive pq \<longrightarrow> q \<in> set (fst (resolve_deaths gm)))) \<and>
         (kill_target outcome = Some k \<and> healed_target outcome = Some k \<and>
            poisoned_target outcome \<noteq> Some k \<longrightarrow>
            map_of (players (snd (resolve_deaths gm))) k = map_of (players gm) k \<and>
            k \<notin> set (fst (resolve_deaths gm))) \<and>
         (healed_target outcome \<noteq> kill_target outcome \<longrightarrow>
            fst (resolve_deaths gm) =
              fst (resolve_deaths (gm\<lparr>night_outcome := Some (outcome\<lparr>healed_target := None\<rparr>)\<rparr>)) \<and>
            players (snd (resolve_deaths gm)) =
              players (snd (resolve_deaths (gm\<lparr>night_outcome := Some (outcome\<lparr>healed_target := None\<rparr>)\<rparr>))))"
proof (intro conjI impI)
  assume h: "kill_target outcome = Some k \<and> healed_target outcome \<noteq> Some k \<and>
            map_of (players gm) k = Some p"
  then have "k \<in> set (night_deaths outcome)" by (simp add: night_deaths_def)
  from dies_if_listed [OF assms this] h
  show "\<exists>p'. map_of (players (snd (resolve_deaths gm))) k = Some p' \<and> \<not> alive p'"
    and "alive p \<Longrightarrow> k \<in> set (fst (resolve_deaths gm))" by blast+
next
  assume h: "poisoned_target outcome = Some q \<and> map_of (players gm) q = Some pq"
  then have "q \<in> set (night_deaths outcome)" by (simp add: night_deaths_def)
  from dies_if_listed [OF assms this] h
  show "\<exists>p'. map_of (players (snd (resolve_deaths gm))) q = Some p' \<and> \<not> alive p'"
    and "alive pq \<Longrightarrow> q \<in> set (fst (resolve_deaths gm))" by blast+
next
  assume h: "kill_target outcome = Some k \<and> healed_target outcome = Some k \<and>
            poisoned_target outcome \<noteq> Some k"
  then have "k \<notin> set (night_deaths outcome)"
    by (auto simp: night_deaths_def split: option.splits)
  from untouched_if_not_listed [OF assms this]
  show "map_of (players (snd (resolve_deaths gm))) k = map_of (players gm) k"
    and "k \<notin> set (fst (resolve_deaths gm))" by blast+
next
  assume h: "healed_target outcome \<noteq> kill_target outcome"
  then have n: "night_deaths (outcome\<lparr>healed_target := None\<rparr>) = night_deaths outcome"
    by (auto simp: night_deaths_def split: option.splits)
  show "fst (resolve_deaths gm) =
          fst (resolve_deaths (gm\<lparr>night_outcome := Some (outcome\<lparr>healed_target := None\<rparr>)\<rparr>))"
    and "players (snd (resolve_deaths gm)) =
          players (snd (resolve_deaths (gm\<lparr>night_outcome := Some (outcome\<lparr>healed_target := None\<rparr>)\<rparr>)))"
    using assms n by (simp_all add: resolve_deaths_def Let_def)
qed

lemma game0_seat5:
  "\<exists>p. map_of (players game0) 5 = Some p \<and> alive p"
  by (simp add: game0_def new_game_def build_default_config_def initialise_players_def
        initial_player_def Let_def)

lemma game0_seat6:
  "\<exists>p. map_of (players game0) 6 = Some p \<and> alive p"
  by (simp add: game0_def new_game_def build_default_config_def initialise_players_def
        initial_player_def Let_def)

lemma heal_elsewhere_deaths:
  "fst (resolve_deaths (game0\<lparr>night_outcome := Some heal_elsewhere\<rparr>)) = [5, 6]"
  using game0_seat5 game0_seat6
  by (auto simp: resolve_deaths_def night_deaths_def heal_elsewhere_def Let_def)

lemma heal_exact_deaths:
  "fst (resolve_deaths (game0\<lparr>night_outcome := Some heal_exact\<rparr>)) = [6]"
  using game0_seat5 game0_seat6
  by (auto simp: resolve_deaths_def night_deaths_def heal_exact_def Let_def)

text \<open>
  Kill 5, heal 3, poison 6: seats 5 and 6 die, as without the heal. Kill 5, heal 5,
  poison 6: seat 5 is untouched and seat 6 dies.
\<close>

theorem C1_witness:
  "fst (resolve_deaths (game0\<lparr>night_outcome := Some heal_elsewhere\<rparr>)) = [5, 6] \<and>
   (\<exists>p'. map_of (players (snd (resolve_deaths (game0\<lparr>night_outcome := Some heal_elsewhere\<rparr>)))) 5 = Some p' \<and> \<not> alive p') \<and>
   (\<exists>p'. map_of (players (snd (resolve_deaths (game0\<lparr>night_outcome := Some heal_elsewhere\<rparr>)))) 6 = Some p' \<and> \<not> alive p') \<and>
   fst (resolve_deaths (game0\<lparr>night_outcome := Some heal_elsewhere\<rparr>)) =
     fst (resolve_deaths (game0\<lparr>night_outcome := Some (heal_elsewhere\<lparr>healed_target := None\<rparr>)\<rparr>)) \<and>
   fst (resolve_deaths (game0\<lparr>night_outcome := Some heal_exact\<rparr>)) = [6] \<and>
   map_of (players (snd (resolve_deaths (game0\<lparr>night_outcome := Some heal_exact\<rparr>)))) 5 =
     map_of (players game0) 5 \<and>
   (\<exists>p'. map_of (players (snd (resolve_deaths (game0\<lparr>night_outcome := Some heal_exact\<rparr>)))) 6 = Some p' \<and> \<not> alive p')"
proof -
  from game0_seat5 obtain p5 where p5: "map_of (players game0) 5 = Some p5" "alive p5" by blast
  from game0_seat6 obtain p6 where p6: "map_of (players game0) 6 = Some p6" "alive p6" by blast
  have a: "night_outcome (game0\<lparr>night_outcome := Some heal_elsewhere\<rparr>) = Some heal_elsewhere"
    and b: "night_outcome (game0\<lparr>night_outcome := Some heal_exact\<rparr>) = Some heal_exact" by simp_all
  have e: "kill_target heal_elsewhere = Some 5 \<and> healed_target heal_elsewhere \<noteq> Some 5 \<and>
           poisoned_target heal_elsewhere = Some 6 \<and>
           healed_target heal_elsewhere \<noteq> kill_target heal_elsewhere"
    by (simp add: heal_elsewhere_def)
  have x: "kill_target heal_exact = Some 5 \<and> healed_target heal_exact = Some 5 \<and>
           poisoned_target heal_exact = Some 6 \<and> poisoned_target heal_exact \<noteq> Some 5"
    by (simp add: heal_exact_def)
  have pe: "map_of (players (game0\<lparr>night_outcome := Some heal_elsewhere\<rparr>)) 5 = Some p5"
      "map_of (players (game0\<lparr>night_outcome := Some heal_elsewhere\<rparr>)) 6 = Some p6"
    and px: "map_of (players (game0\<lparr>night_outcome := Some heal_exact\<rparr>)) 5 = Some p5"
      "map_of (players (game0\<lparr>night_outcome := Some heal_exact\<rparr>)) 6 = Some p6"
    using p5 p6 by simp_all
  from C1_death_resolution [OF a, of 5 p5 6 p6] e pe
  have 1: "(\<exists>p'. map_of (players (snd (resolve_deaths (game0\<lparr>night_outcome := Some heal_elsewhere\<rparr>)))) 5 = Some p' \<and> \<not> alive p') \<and>
   (\<exists>p'. map_of (players (snd (resolve_deaths (game0\<lparr>night_outcome := Some heal_elsewhere\<rparr>)))) 6 = Some p' \<and> \<not> alive p') \<and>
   fst (resolve_deaths (game0\<lparr>night_outcome := Some heal_elsewhere\<rparr>)) =
     fst (resolve_deaths (game0\<lparr>night_outcome := Some (heal_elsewhere\<lparr>healed_target := None\<rparr>)\<rparr>))"
    by auto
  from C1_death_resolution [OF b, of 5 p5 6 p6] x px
  have "map_of (players (snd (resolve_deaths (game0\<lparr>night_outcome := Some heal_exact\<rparr>)))) 5 =
     map_of (players (game0\<lparr>night_outcome := Some heal_exact\<rparr>)) 5 \<and>
   (\<exists>p'. map_of (players (snd (resolve_deaths (game0\<lparr>night_outcome := Some heal_exact\<rparr>)))) 6 = Some p' \<and> \<not> alive p')"
    by auto
  then have 2: "map_of (players (snd (resolve_deaths (game0\<lparr>night_outcome := Some heal_exact\<rparr>)))) 5 =
     map_of (players game0) 5 \<and>
   (\<exists>p'. map_of (players (snd (resolve_deaths (game0\<lparr>night_outcome := Some heal_exact\<rparr>)))) 6 = Some p' \<and> \<not> alive p')"
    by simp
  from 1 2 heal_elsewhere_deaths heal_exact_deaths show ?thesis by blast
qed

section \<open>Properties of the win evaluation\<close>

lemma finite_keys: "finite {k. \<exists>p. map_of ps k = Some p \<and> P p}"
proof -
  have "{k. \<exists>p. map_of ps k = Some p \<and> P p} \<subseteq> fst ` set ps"
    by (auto dest: map_of_SomeD intro: rev_image_eqI)
  then show ?thesis by (rule finite_subset) simp
qed

lemma count_as_card:
  "distinct (map fst ps) \<Longrightarrow>
   length (filter P (map snd ps)) = card {k. \<exists>p. map_of ps k = Some p \<and> P p}"
proof (induction ps)
  case Nil
  then show ?case by simp
next
  case (Cons x ps)
  obtain k p where x: "x = (k, p)" by (cases x)
  from Cons.prems x have fresh: "k \<notin> fst ` set ps" and d: "distinct (map fst ps)" by auto
  from fresh have none: "map_of ps k = None" by (simp add: map_of_eq_None_iff)
  let ?S = "{k'. \<exists>p'. map_of ps k' = Some p' \<and> P p'}"
  have notin: "k \<notin> ?S" using none by simp
  have S: "{k'. \<exists>p'. map_of (x # ps) k' = Some p' \<and> P p'} = (if P p then insert k ?S else ?S)"
    using x none by auto
  from Cons.IH [OF d] have ih: "length (filter P (map snd ps)) = card ?S" .
  show ?case
  proof (cases "P p")
    case True
    then show ?thesis using S ih x notin finite_keys [of ps P] by simp
  next
    case False
    then show ?thesis using S ih x by simp
  qed
qed

lemma is_finished_spec:
  assumes "distinct (map fst (players gm))"
  shows "is_finished gm =
     (if spec_wolves_alive_count (players gm) = 0 then (True, gm\<lparr>result := ''villagers_win''\<rparr>)
      else if spec_villagers_alive_count (players gm) \<le> spec_wolves_alive_count (players gm)
      then (True, gm\<lparr>result := ''wolves_win''\<rparr>)
      else (False, gm))"
  unfolding is_finished_cases spec_wolves_alive_count_def spec_villagers_alive_count_def
    count_as_card [OF assms] ..

lemma is_finished_no_wolves:
  assumes "filter (\<lambda>p. alive p \<and> role p = WOLF) (map snd (players gm)) = []"
  shows "is_finished gm = (True, gm\<lparr>result := ''villagers_win''\<rparr>)"
  using assms by (simp add: is_finished_cases)

lemma is_finished_times_no_wolves:
  assumes "filter (\<lambda>p. alive p \<and> role p = WOLF) (map snd (players gm)) = []"
  shows "is_finished_times (Suc n) gm = (replicate (Suc n) True, gm\<lparr>result := ''villagers_win''\<rparr>)"
  using assms
proof (induction n arbitrary: gm)
  case 0
  then show ?case by (simp add: is_finished_no_wolves)
next
  case (Suc n)
  have "filter (\<lambda>p. alive p \<and> role p = WOLF) (map snd (players (gm\<lparr>result := ''villagers_win''\<rparr>))) = []"
    using Suc.prems by simp
  from Suc.IH [OF this] Suc.prems show ?case
    by (simp add: is_finished_no_wolves del: is_finished_times.simps(2) replicate.simps
          add: is_finished_times.simps(2) [of "Suc n"] replicate.simps(2) [of "Suc n"])
qed

lemma no_wolves_count:
  "distinct (map fst ps) \<Longrightarrow> spec_wolves_alive_count ps = 0 \<Longrightarrow>
   filter (\<lambda>p. alive p \<and> role p = WOLF) (map snd ps) = []"
proof -
  assume "distinct (map fst ps)" and "spec_wolves_alive_count ps = 0"
  then have "length (filter (\<lambda>p. alive p \<and> role p = WOLF) (map snd ps)) = 0"
    unfolding spec_wolves_alive_count_def by (simp only: count_as_card)
  then show ?thesis by (simp only: length_0_conv)
qed

text \<open>
  C2. On a roster with one entry per seat, the evaluator answers "finished, villagers win"
  when no wolf seat is alive, "finished, wolves win" when some wolf is alive and the alive
  wolves are at least as many as the other alive seats, and "not finished" otherwise. Once no
  wolf is alive, it answers "villagers win" at every call, whatever the match does before
  the call and however often it is called. Every roster of a match has one entry per seat.
\<close>

theorem C2_win_evaluation:
  "(distinct (map fst (players gm)) \<longrightarrow>
      is_finished gm =
        (if spec_wolves_alive_count (players gm) = 0
         then (True, gm\<lparr>result := ''villagers_win''\<rparr>)
         else if spec_villagers_alive_count (players gm) \<le> spec_wolves_alive_count (players gm)
         then (True, gm\<lparr>result := ''wolves_win''\<rparr>)
         else (False, gm))) \<and>
   (distinct (map fst (players gm)) \<and> spec_wolves_alive_count (players gm) = 0 \<longrightarrow>
      is_finished_times (Suc n) (match_run dz gm es) =
        (replicate (Suc n) True, (match_run dz gm es)\<lparr>result := ''villagers_win''\<rparr>)) \<and>
   distinct (map fst (players (match_run dz (new_game cfg g) es')))"
proof (intro conjI impI)
  show "distinct (map fst (players (match_run dz (new_game cfg g) es')))"
    by (rule match_run_distinct)
next
  assume "distinct (map fst (players gm))"
  then show "is_finished gm =
        (if spec_wolves_alive_count (players gm) = 0
         then (True, gm\<lparr>result := ''villagers_win''\<rparr>)
         else if spec_villagers_alive_count (players gm) \<le> spec_wolves_alive_count (players gm)
         then (True, gm\<lparr>result := ''wolves_win''\<rparr>)
         else (False, gm))"
    by (rule is_finished_spec)
next
  assume h: "distinct (map fst (players gm)) \<and> spec_wolves_alive_count (players gm) = 0"
  then have "filter (\<lambda>p. alive p \<and> role p = WOLF) (map snd (players gm)) = []"
    by (simp add: no_wolves_count)
  moreover have "never_revives (players gm) (players (match_run dz gm es))"
    by (rule match_run_never_revives)
  ultimately have "filter (\<lambda>p. alive p \<and> role p = WOLF) (map snd (players (match_run dz gm es))) = []"
    by (blast intro: never_revives_no_wolves)
  then show "is_finished_times (Suc n) (match_run dz gm es) =
        (replicate (Suc n) True, (match_run dz gm es)\<lparr>result := ''villagers_win''\<rparr>)"
    by (rule is_finished_times_no_wolves)
qed

lemma game0_counts:
  "spec_wolves_alive_count (players game0) = 2 \<and> spec_villagers_alive_count (players game0) = 4"
  unfolding spec_wolves_alive_count_def spec_villagers_alive_count_def
    count_as_card [OF game0_distinct, symmetric] view_wolves view_villagers game0_roster_view
  by simp

lemma wolves_gone_counts:
  "spec_wolves_alive_count (players wolves_gone) = 0"
  unfolding spec_wolves_alive_count_def count_as_card [OF wolves_gone_distinct, symmetric]
    view_wolves wolves_gone_roster_view
  by simp

text \<open>
  The new default match (2 wolves, 4 others) is not finished; with both wolves dead, three
  calls in a row after a night in which seats 5 and 6 die answer that the villagers win.
\<close>

theorem C2_witness:
  "distinct (map fst (players game0)) \<and>
   spec_wolves_alive_count (players game0) = 2 \<and> spec_villagers_alive_count (players game0) = 4 \<and>
   is_finished game0 = (False, game0) \<and>
   distinct (map fst (players wolves_gone)) \<and> spec_wolves_alive_count (players wolves_gone) = 0 \<and>
   is_finished_times 3 (match_run [48] wolves_gone [NightDeaths heal_elsewhere]) =
     ([True, True, True], (match_run [48] wolves_gone [NightDeaths heal_elsewhere])\<lparr>result := ''villagers_win''\<rparr>)"
proof -
  note a = C2_win_evaluation [of game0 0 "[48]" "[]" build_default_config 42 "[]"]
  note b = C2_win_evaluation [of wolves_gone 2 "[48]" "[NightDeaths heal_elsewhere]" build_default_config 42 "[]"]
  from a game0_distinct have "is_finished game0 =
        (if spec_wolves_alive_count (players game0) = 0
         then (True, game0\<lparr>result := ''villagers_win''\<rparr>)
         else if spec_villagers_alive_count (players game0) \<le> spec_wolves_alive_count (players game0)
         then (True, game0\<lparr>result := ''wolves_win''\<rparr>)
         else (False, game0))" by blast
  then have "is_finished game0 = (False, game0)" using game0_counts by simp
  moreover from b wolves_gone_distinct wolves_gone_counts
  have "is_finished_times (Suc 2) (match_run [48] wolves_gone [NightDeaths heal_elsewhere]) =
     (replicate (Suc 2) True, (match_run [48] wolves_gone [NightDeaths heal_elsewhere])\<lparr>result := ''villagers_win''\<rparr>)"
    by blast
  then have "is_finished_times 3 (match_run [48] wolves_gone [NightDeaths heal_elsewhere]) =
     ([True, True, True], (match_run [48] wolves_gone [NightDeaths heal_elsewhere])\<lparr>result := ''villagers_win''\<rparr>)"
    by (simp add: numeral_3_eq_3 numeral_2_eq_2 del: is_finished_times.simps match_run.simps)
  ultimately show ?thesis
    using game0_distinct game0_counts wolves_gone_distinct wolves_gone_counts by blast
qed

lemma is_finished_frame: "snd (is_finished gm) = gm\<lparr>result := result (snd (is_finished gm))\<rparr>"
  by (simp add: is_finished_cases)

lemma is_finished_result:
  "result (snd (is_finished gm)) =
     (if fst (is_finished gm)
      then (if length (filter (\<lambda>p. alive p \<and> role p = WOLF) (map snd (players gm))) = 0
            then ''villagers_win'' else ''wolves_win'')
      else result gm)"
  by (simp add: is_finished_cases)

lemma is_finished_idem: "is_finished (snd (is_finished gm)) = is_finished gm"
  by (simp add: is_finished_cases)

lemma is_finished_times_same:
  "is_finished_times (Suc n) gm = (replicate (Suc n) (fst (is_finished gm)), snd (is_finished gm))"
proof (induction n arbitrary: gm)
  case 0
  show ?case by (simp add: case_prod_beta)
next
  case (Suc n)
  have "is_finished_times (Suc (Suc n)) gm =
          (fst (is_finished gm) # fst (is_finished_times (Suc n) (snd (is_finished gm))),
           snd (is_finished_times (Suc n) (snd (is_finished gm))))"
    by (simp add: case_prod_beta Let_def)
  also have "\<dots> = (fst (is_finished gm) # replicate (Suc n) (fst (is_finished gm)), snd (is_finished gm))"
    by (simp only: Suc.IH is_finished_idem fst_conv snd_conv)
  finally show ?case by simp
qed

text \<open>
  C7, as amended. A call of the evaluator leaves the roster, the chronicle, the round number
  and the random source as they are, and every other field but the recorded result; the
  recorded result becomes the verdict when the match is finished and stays as it is
  otherwise. A second call on the state the first one left changes nothing, and any number
  of calls in a row give the same answer and that same state.
\<close>

theorem C7_is_finished_frame:
  assumes "is_finished gm = (b, gm')"
  shows "players gm' = players gm \<and> chronicle gm' = chronicle gm \<and> round_no gm' = round_no gm \<and>
         rng gm' = rng gm \<and> gm' = gm\<lparr>result := result gm'\<rparr> \<and>
         result gm' =
           (if b then (if wolves_alive (players gm) = [] then ''villagers_win'' else ''wolves_win'')
            else result gm) \<and>
         is_finished gm' = (b, gm') \<and>
         is_finished_times (Suc n) gm = (replicate (Suc n) b, gm')"
proof -
  from assms have b: "b = fst (is_finished gm)" and g: "gm' = snd (is_finished gm)" by simp_all
  have w: "(wolves_alive (players gm) = []) =
           (length (filter (\<lambda>p. alive p \<and> role p = WOLF) (map snd (players gm))) = 0)"
    by (simp add: wolves_alive_def filter_map comp_def case_prod_unfold)
  have "gm' = gm\<lparr>result := result gm'\<rparr>" unfolding g by (rule is_finished_frame)
  moreover from this have "players gm' = players gm" "chronicle gm' = chronicle gm"
      "round_no gm' = round_no gm" "rng gm' = rng gm"
    by (metis GameMaster.select_convs GameMaster.update_convs GameMaster.surjective)+
  moreover have "result gm' =
           (if b then (if wolves_alive (players gm) = [] then ''villagers_win'' else ''wolves_win'')
            else result gm)"
    unfolding b g w by (rule is_finished_result)
  moreover have "is_finished gm' = (b, gm')" unfolding g using is_finished_idem [of gm] assms by simp
  moreover have "is_finished_times (Suc n) gm = (replicate (Suc n) b, gm')"
    unfolding b g by (rule is_finished_times_same)
  ultimately show ?thesis by blast
qed

text \<open>
  The claim as stated fails: with both wolves dead and the recorded result still "ongoing",
  the call writes "villagers_win" into the state.
\<close>

theorem C7_counterexample:
  "result wolves_gone = ''ongoing'' \<and> result (snd (is_finished wolves_gone)) = ''villagers_win'' \<and>
   snd (is_finished wolves_gone) \<noteq> wolves_gone"
proof -
  have r: "result wolves_gone = ''ongoing''"
    by (simp add: wolves_gone_def game0_def new_game_def)
  have "filter (\<lambda>p. alive p \<and> role p = WOLF) (map snd (players wolves_gone)) = []"
    using wolves_gone_distinct wolves_gone_counts by (rule no_wolves_count)
  then have f: "is_finished wolves_gone = (True, wolves_gone\<lparr>result := ''villagers_win''\<rparr>)"
    by (rule is_finished_no_wolves)
  then have "result (snd (is_finished wolves_gone)) = ''villagers_win''" by simp
  with r show ?thesis by auto
qed

text \<open>The amended claim on that state.\<close>

theorem C7_witness:
  "is_finished wolves_gone = (True, wolves_gone\<lparr>result := ''villagers_win''\<rparr>) \<and>
   players (wolves_gone\<lparr>result := ''villagers_win''\<rparr>) = players wolves_gone \<and>
   is_finished (wolves_gone\<lparr>result := ''villagers_win''\<rparr>) = (True, wolves_gone\<lparr>result := ''villagers_win''\<rparr>) \<and>
   is_finished_times 3 wolves_gone = ([True, True, True], wolves_gone\<lparr>result := ''villagers_win''\<rparr>)"
proof -
  have "filter (\<lambda>p. alive p \<and> role p = WOLF) (map snd (players wolves_gone)) = []"
    using wolves_gone_distinct wolves_gone_counts by (rule no_wolves_count)
  then have f: "is_finished wolves_gone = (True, wolves_gone\<lparr>result := ''villagers_win''\<rparr>)"
    by (rule is_finished_no_wolves)
  from C7_is_finished_frame [OF f, of 2] f show ?thesis
    by (simp add: numeral_3_eq_3 del: is_finished_times.simps)
qed

section \<open>Properties of the wolves' tally\<close>

lemma first_seen_snoc:
  "first_seen (ws @ [x]) = (if x \<in> set ws then first_seen ws else first_seen ws @ [x])"
  by (simp add: first_seen_def)

lemma set_first_seen: "set (first_seen ws) = set ws"
  by (simp add: first_seen_def)

lemma distinct_first_seen: "distinct (first_seen ws)"
  by (simp add: first_seen_def)

lemma map_of_tally: "map_of (map (\<lambda>v. (v, c v)) ks) x = (if x \<in> set ks then Some (c x) else None)"
  by (induction ks) auto

lemma update_tally:
  "distinct ks \<Longrightarrow>
   AList.update x n (map (\<lambda>v. (v, c v)) ks) =
     (if x \<in> set ks then map (\<lambda>v. (v, if v = x then n else c v)) ks
      else map (\<lambda>v. (v, c v)) ks @ [(x, n)])"
  by (induction ks) auto

lemma count_list_snoc: "count_list (ws @ [x]) v = count_list ws v + (if v = x then 1 else 0)"
  by (induction ws) auto

lemma Counter_snoc: "Counter (ws @ [x]) = counter_add (Counter ws) x"
  by (simp add: Counter_def)

lemma Counter_tally: "Counter ws = map (\<lambda>v. (v, count_list ws v)) (first_seen ws)"
proof (induction ws rule: rev_induct)
  case Nil
  show ?case by (simp add: Counter_def first_seen_def)
next
  case (snoc x ws)
  show ?case
  proof (cases "x \<in> set ws")
    case True
    then show ?thesis
      by (simp add: Counter_snoc snoc.IH counter_add_def map_of_tally set_first_seen
            update_tally distinct_first_seen first_seen_snoc count_list_snoc)
  next
    case False
    then have "count_list ws x = 0" by (simp add: count_list_0_iff)
    with False show ?thesis
      by (auto simp: Counter_snoc snoc.IH counter_add_def map_of_tally set_first_seen
            update_tally distinct_first_seen first_seen_snoc count_list_snoc)
  qed
qed

lemma max_by_count_split:
  "\<exists>ys zs. b # xs = ys @ max_by_count b xs # zs \<and>
     (\<forall>y \<in> set ys. snd y < snd (max_by_count b xs)) \<and>
     (\<forall>z \<in> set zs. snd z \<le> snd (max_by_count b xs))"
proof (induction xs arbitrary: b)
  case Nil
  have "[b] = [] @ max_by_count b [] # [] \<and>
     (\<forall>y \<in> set []. snd y < snd (max_by_count b [])) \<and>
     (\<forall>z \<in> set []. snd z \<le> snd (max_by_count b []))" by simp
  then show ?case by blast
next
  case (Cons x xs)
  show ?case
  proof (cases "snd b < snd x")
    case True
    then have m: "max_by_count b (x # xs) = max_by_count x xs" by simp
    define w where "w = max_by_count x xs"
    from Cons.IH [of x] obtain ys zs where
      s: "x # xs = ys @ w # zs"
      and l: "\<forall>y \<in> set ys. snd y < snd w"
      and r: "\<forall>z \<in> set zs. snd z \<le> snd w" unfolding w_def by blast
    have "snd x \<le> snd w"
    proof (cases ys)
      case Nil
      with s have "x = w" by simp
      then show ?thesis by simp
    next
      case (Cons y ys')
      with s have "x \<in> set ys" by simp
      with l show ?thesis by auto
    qed
    with True have bw: "snd b < snd w" by simp
    from s have "b # x # xs = (b # ys) @ w # zs" by simp
    moreover from l bw have "\<forall>y \<in> set (b # ys). snd y < snd w" by simp
    ultimately show ?thesis unfolding m w_def [symmetric] using r by blast
  next
    case False
    then have m: "max_by_count b (x # xs) = max_by_count b xs" by simp
    define w where "w = max_by_count b xs"
    from Cons.IH [of b] obtain ys zs where
      s: "b # xs = ys @ w # zs"
      and l: "\<forall>y \<in> set ys. snd y < snd w"
      and r: "\<forall>z \<in> set zs. snd z \<le> snd w" unfolding w_def by blast
    show ?thesis
    proof (cases ys)
      case Nil
      with s have bw: "b = w" and z: "xs = zs" by simp_all
      from bw z have "b # x # xs = [] @ w # (x # zs)" by simp
      moreover from False bw r have "\<forall>z \<in> set (x # zs). snd z \<le> snd w" by auto
      moreover have "\<forall>y \<in> set []. snd y < snd w" by simp
      ultimately show ?thesis unfolding m w_def [symmetric] by blast
    next
      case (Cons y ys')
      with s have y: "y = b" and xs: "xs = ys' @ w # zs" by simp_all
      from l Cons y have "snd b < snd w" by simp
      with False have xw: "snd x < snd w" by simp
      from xs have "b # x # xs = (b # x # ys') @ w # zs" by simp
      moreover from l Cons y xw have "\<forall>y \<in> set (b # x # ys'). snd y < snd w" by simp
      ultimately show ?thesis unfolding m w_def [symmetric] using r by blast
    qed
  qed
qed

lemma find_first_largest:
  fixes f :: "'a \<Rightarrow> nat"
  assumes "kvs = ys @ m # zs" and "\<forall>y \<in> set ys. f y < f m" and "\<forall>z \<in> set zs. f z \<le> f m"
  shows "find (\<lambda>y. \<forall>z \<in> set kvs. f z \<le> f y) kvs = Some m"
proof -
  have "\<And>y. y \<in> set ys \<Longrightarrow> \<not> (\<forall>z \<in> set kvs. f z \<le> f y)"
    using assms(1,2) by force
  moreover have "\<forall>z \<in> set kvs. f z \<le> f m" using assms by auto
  ultimately show ?thesis
    unfolding find_Some_iff
    apply (intro exI [of _ "length ys"])
    using assms(1) by (auto simp: nth_append)
qed

lemma most_common_1_first_largest:
  "kvs \<noteq> [] \<Longrightarrow>
   \<exists>m. most_common_1 kvs = [m] \<and> find (\<lambda>y. \<forall>z \<in> set kvs. snd z \<le> snd y) kvs = Some m"
proof -
  assume "kvs \<noteq> []"
  then obtain b xs where k: "kvs = b # xs" by (cases kvs) auto
  from max_by_count_split [of b xs] obtain ys zs where
    "b # xs = ys @ max_by_count b xs # zs"
    "\<forall>y \<in> set ys. snd y < snd (max_by_count b xs)"
    "\<forall>z \<in> set zs. snd z \<le> snd (max_by_count b xs)" by blast
  with k have "find (\<lambda>y. \<forall>z \<in> set kvs. snd z \<le> snd y) kvs = Some (max_by_count b xs)"
    by (intro find_first_largest [where f = snd]) auto
  with k show ?thesis by (simp add: most_common_1_def)
qed

lemma find_tally:
  "find (\<lambda>y. Q (fst y)) (map (\<lambda>v. (v, c v)) ks) = map_option (\<lambda>v. (v, c v)) (find Q ks)"
  by (induction ks) auto

lemma find_snoc:
  "find Q (xs @ [x]) = (case find Q xs of Some y \<Rightarrow> Some y | None \<Rightarrow> if Q x then Some x else None)"
  by (induction xs) auto

lemma find_first_seen: "find Q (first_seen ws) = find Q ws"
proof (induction ws rule: rev_induct)
  case Nil
  show ?case by (simp add: first_seen_def)
next
  case (snoc x ws)
  show ?case
  proof (cases "x \<in> set ws")
    case True
    then have "find Q ws = None \<Longrightarrow> \<not> Q x" by (auto simp: find_None_iff)
    with True snoc.IH show ?thesis
      by (auto simp: first_seen_snoc find_snoc split: option.splits)
  next
    case False
    with snoc.IH show ?thesis by (simp add: first_seen_snoc find_snoc)
  qed
qed

lemma kill_target_first_seen:
  assumes "ws \<noteq> []"
  shows "\<exists>w. wolves_kill_target ws = Inr (Some w) \<and>
             find (\<lambda>v. \<forall>u \<in> set ws. count_list ws u \<le> count_list ws v) ws = Some w"
proof -
  let ?c = "count_list ws"
  let ?kvs = "map (\<lambda>v. (v, ?c v)) (first_seen ws)"
  let ?Q = "\<lambda>v. \<forall>u \<in> set ws. ?c u \<le> ?c v"
  from assms have "first_seen ws \<noteq> []"
    using set_first_seen [of ws] by (metis set_empty)
  then have ne: "?kvs \<noteq> []" by simp
  from most_common_1_first_largest [OF ne] obtain m where
    m: "most_common_1 ?kvs = [m]"
    and f: "find (\<lambda>y. \<forall>z \<in> set ?kvs. snd z \<le> snd y) ?kvs = Some m" by blast
  have "find (\<lambda>y. \<forall>z \<in> set ?kvs. snd z \<le> snd y) ?kvs = find (\<lambda>y. ?Q (fst y)) ?kvs"
    by (rule find_cong) (auto simp: set_first_seen)
  also have "\<dots> = map_option (\<lambda>v. (v, ?c v)) (find ?Q (first_seen ws))"
    by (rule find_tally)
  also have "\<dots> = map_option (\<lambda>v. (v, ?c v)) (find ?Q ws)"
    by (simp only: find_first_seen)
  finally have "map_option (\<lambda>v. (v, ?c v)) (find ?Q ws) = Some m" using f by simp
  then have "find ?Q ws = Some (fst m)" by auto
  moreover have "wolves_kill_target ws = Inr (Some (fst m))"
    using assms m by (simp add: wolves_kill_target_def Counter_tally split: prod.splits)
  ultimately show ?thesis by blast
qed

lemma night_wolves_tally_outcome:
  assumes "night_outcome gm = Some outcome"
  shows "\<exists>gm'. night_wolves_tally gm ws = Inr gm' \<and>
           map_option kill_target (night_outcome gm') =
             Some (if ws = [] then kill_target outcome else spec_first_seen_plurality ws)"
proof (cases "ws = []")
  case True
  with assms show ?thesis by (simp add: night_wolves_tally_def wolves_kill_target_def)
next
  case False
  from kill_target_first_seen [OF False] obtain w where
    "wolves_kill_target ws = Inr (Some w)" "spec_first_seen_plurality ws = Some w"
    by (auto simp: spec_first_seen_plurality_def)
  with assms False show ?thesis by (simp add: night_wolves_tally_def)
qed

text \<open>
  C3, as amended. The kill target is a function of the vote sequence: none for the empty
  sequence, and otherwise a candidate with the largest count, namely the one of them whose
  first vote comes first in the sequence. It is what the tally writes to the night outcome;
  without votes the night outcome keeps its kill target, which is none in a new outcome.
\<close>

theorem C3_first_seen_plurality:
  "wolves_kill_target ws = Inr (spec_first_seen_plurality ws) \<and>
   wolves_kill_target [] = Inr None \<and>
   (ws \<noteq> [] \<longrightarrow>
      (\<exists>w \<in> set ws. wolves_kill_target ws = Inr (Some w) \<and>
                     (\<forall>u. count_list ws u \<le> count_list ws w))) \<and>
   (night_outcome gm = Some outcome \<longrightarrow>
      (\<exists>gm'. night_wolves_tally gm ws = Inr gm' \<and>
         map_option kill_target (night_outcome gm') =
           Some (if ws = [] then kill_target outcome else spec_first_seen_plurality ws)))"
proof (intro conjI impI)
  assume "night_outcome gm = Some outcome"
  then show "\<exists>gm'. night_wolves_tally gm ws = Inr gm' \<and>
         map_option kill_target (night_outcome gm') =
           Some (if ws = [] then kill_target outcome else spec_first_seen_plurality ws)"
    by (rule night_wolves_tally_outcome)
next
  show "wolves_kill_target ws = Inr (spec_first_seen_plurality ws)"
  proof (cases "ws = []")
    case True
    then show ?thesis by (simp add: wolves_kill_target_def spec_first_seen_plurality_def)
  next
    case False
    from kill_target_first_seen [OF False] show ?thesis
      by (auto simp: spec_first_seen_plurality_def)
  qed
  show "wolves_kill_target [] = Inr None" by (simp add: wolves_kill_target_def)
next
  assume "ws \<noteq> []"
  from kill_target_first_seen [OF this] obtain w where
    k: "wolves_kill_target ws = Inr (Some w)"
    and f: "find (\<lambda>v. \<forall>u \<in> set ws. count_list ws u \<le> count_list ws v) ws = Some w" by blast
  from f have w: "w \<in> set ws" and q: "\<forall>u \<in> set ws. count_list ws u \<le> count_list ws w"
    by (auto simp: find_Some_iff)
  have "count_list ws u \<le> count_list ws w" for u
  proof (cases "u \<in> set ws")
    case True
    with q show ?thesis by blast
  next
    case False
    then have "count_list ws u = 0" by (simp add: count_list_0_iff)
    then show ?thesis by simp
  qed
  with k w show "\<exists>w \<in> set ws. wolves_kill_target ws = Inr (Some w) \<and>
                     (\<forall>u. count_list ws u \<le> count_list ws w)" by blast
qed

text \<open>
  The claim as stated fails on the votes 1, 2, 2, 1: candidate 2 is the first to reach the
  largest count, 2, and the kill target is candidate 1, whose first vote is the earlier.
\<close>

theorem C3_counterexample:
  "wolves_kill_target [1, 2, 2, 1] = Inr (Some 1) \<and> spec_first_reached_max [1, 2, 2, 1] = Some 2"
  by (simp add: wolves_kill_target_def Counter_def counter_add_def most_common_1_def
        spec_first_reached_max_def max_count_def)

text \<open>The amended claim on the same votes.\<close>

theorem C3_witness:
  "wolves_kill_target [1, 2, 2, 1] = Inr (Some 1) \<and>
   spec_first_seen_plurality [1, 2, 2, 1] = Some 1 \<and>
   [1, 2, 2, 1] \<noteq> ([] :: int list) \<and> count_list [1, 2, 2, 1] (2 :: int) \<le> count_list [1, 2, 2, 1] 1 \<and>
   night_outcome (game0\<lparr>night_outcome := Some new_night_outcome\<rparr>) = Some new_night_outcome \<and>
   (\<exists>gm'. night_wolves_tally (game0\<lparr>night_outcome := Some new_night_outcome\<rparr>) [1, 2, 2, 1] = Inr gm' \<and>
      map_option kill_target (night_outcome gm') = Some (Some 1))"
  using C3_first_seen_plurality [of "[1, 2, 2, 1]" "game0\<lparr>night_outcome := Some new_night_outcome\<rparr>" new_night_outcome]
  by (simp add: spec_first_seen_plurality_def)

section \<open>Properties of the hunter's trigger\<close>

text \<open>What a call on an unused hunter can do to the roster.\<close>

lemma trigger_outcomes:
  assumes "map_of (players gm) seat = Some player" "role player = HUNTER" "\<not> hunter_has_shot player"
  shows "(trigger_hunter_if_needed dz gm seat cause ia = Inr (snd (send_stage gm seat ''stage_hunter_trigger'' ia)) \<and>
          (i_response ia = None \<or> i_response ia = Some [])) \<or>
         (\<exists>gm'. trigger_hunter_if_needed dz gm seat cause ia = Inr gm' \<and>
                players gm' = mark_shot (players gm) seat \<and>
                i_response ia \<noteq> None \<and> i_response ia \<noteq> Some []) \<or>
         (\<exists>gm' target ps'. trigger_hunter_if_needed dz gm seat cause ia = Inr gm' \<and>
                set_dead (players gm) target = Inr ps' \<and>
                players gm' = mark_shot ps' seat \<and>
                i_response ia \<noteq> None \<and> i_response ia \<noteq> Some []) \<or>
         (trigger_hunter_if_needed dz gm seat cause ia =
            Inl (KeyError, snd (send_stage gm seat ''stage_hunter_trigger'' ia)) \<and> alive player \<and>
                i_response ia \<noteq> None \<and> i_response ia \<noteq> Some [])"
  using assms
  by (auto simp: trigger_hunter_if_needed_def Let_def send_stage_def set_dead_def
        split: option.splits sum.splits if_splits)

lemma kill_sets_flag:
  assumes "killed_between (players gm) (players (trigger_state dz gm c)) \<noteq> []"
  shows "has_shot (players (trigger_state dz gm c)) (t_seat c)"
proof (cases "map_of (players gm) (t_seat c)")
  case None
  then have "trigger_state dz gm c = gm"
    by (simp add: trigger_state_def trigger_hunter_if_needed_def)
  with assms show ?thesis by (simp add: killed_between_same)
next
  case (Some player)
  show ?thesis
  proof (cases "role player = HUNTER \<and> \<not> hunter_has_shot player")
    case False
    with Some have "trigger_state dz gm c = gm"
      by (auto simp: trigger_state_def trigger_hunter_if_needed_def)
    with assms show ?thesis by (simp add: killed_between_same)
  next
    case True
    from trigger_outcomes [OF Some, of dz "t_cause c" "t_reply c"] True
    consider
      (pass) "players (trigger_state dz gm c) = players gm"
      | (flag) "players (trigger_state dz gm c) = mark_shot (players gm) (t_seat c)"
      | (shot) target ps' where "set_dead (players gm) target = Inr ps'"
          "players (trigger_state dz gm c) = mark_shot ps' (t_seat c)"
      by (auto simp: trigger_state_def send_stage_players)
    then show ?thesis
    proof cases
      case pass
      with assms show ?thesis by (simp add: killed_between_same)
    next
      case flag
      with assms show ?thesis by (simp add: killed_between_mark_shot)
    next
      case shot
      from shot(1) Some have "map_of ps' (t_seat c) \<noteq> None"
        by (auto simp: map_of_set_dead)
      then show ?thesis unfolding shot(2) by (rule mark_shot_sets)
    qed
  qed
qed

lemma no_more_shots_in:
  "has_shot (players gm) h \<Longrightarrow> shots_in dz h gm es = 0"
proof (induction es arbitrary: gm)
  case Nil
  show ?case by simp
next
  case (Cons e es)
  from Cons.prems have k: "has_shot (players (match_step dz gm e)) h"
    by (rule match_step_keeps_shot)
  show ?case
  proof (cases e)
    case (Trigger c)
    have "t_seat c = h \<Longrightarrow> killed_between (players gm) (players (trigger_state dz gm c)) = []"
      using Cons.prems by (simp add: trigger_state_noop killed_between_same)
    with Cons.IH [OF k] Trigger show ?thesis by auto
  qed (use Cons.IH [OF k] in simp_all)
qed

lemma shots_in_at_most_once: "shots_in dz h gm es \<le> 1"
proof (induction es arbitrary: gm)
  case Nil
  show ?case by simp
next
  case (Cons e es)
  show ?case
  proof (cases e)
    case (Trigger c)
    show ?thesis
    proof (cases "t_seat c = h \<and> killed_between (players gm) (players (trigger_state dz gm c)) \<noteq> []")
      case True
      then have "has_shot (players (trigger_state dz gm c)) h" using kill_sets_flag by blast
      then have "shots_in dz h (trigger_state dz gm c) es = 0" by (rule no_more_shots_in)
      with True Trigger show ?thesis by simp
    next
      case False
      with Cons.IH [of "trigger_state dz gm c"] Trigger show ?thesis by auto
    qed
  qed (use Cons.IH [of "match_step dz gm e"] in simp_all)
qed

text \<open>
  C6. In every sequence of events of a match, from any state and with any replies, at most
  one trigger call on a given seat kills somebody; and once a call on the seat has killed,
  every later call on that seat, whatever the match did in between, returns the state as it
  found it.
\<close>

theorem C6_single_shot:
  "shots_in dz h gm es \<le> 1 \<and>
   (t_seat c = h \<and> killed_between (players gm) (players (trigger_state dz gm c)) \<noteq> [] \<longrightarrow>
      trigger_hunter_if_needed dz (match_run dz (trigger_state dz gm c) es') h cause ia =
        Inr (match_run dz (trigger_state dz gm c) es') \<and>
      shots_in dz h (trigger_state dz gm c) es' = 0)"
proof (intro conjI impI)
  show "shots_in dz h gm es \<le> 1" by (rule shots_in_at_most_once)
next
  assume "t_seat c = h \<and> killed_between (players gm) (players (trigger_state dz gm c)) \<noteq> []"
  then have s: "has_shot (players (trigger_state dz gm c)) h" using kill_sets_flag by blast
  then have "has_shot (players (match_run dz (trigger_state dz gm c) es')) h"
    by (rule match_run_keeps_shot)
  then show "trigger_hunter_if_needed dz (match_run dz (trigger_state dz gm c) es') h cause ia =
        Inr (match_run dz (trigger_state dz gm c) es')" by (rule trigger_noop)
  from s show "shots_in dz h (trigger_state dz gm c) es' = 0" by (rule no_more_shots_in)
qed

lemma shoot_replies_parsed:
  "parse_directive [48] (LB # kw_shoot @ RB # ZUO # WEI # 49 # []) kw_shoot = Some 1"
  "parse_directive [48] (LB # kw_shoot @ RB # ZUO # WEI # 50 # []) kw_shoot = Some 2"
  using parse_directive_first_digit [of kw_shoot "[48]" 49 1 "[]"]
        parse_directive_first_digit [of kw_shoot "[48]" 50 2 "[]"]
  by (simp_all add: kw_shoot_def RB_def)

lemma shoot_replies_tagged:
  "contains shoot_tag (LB # kw_shoot @ RB # ZUO # WEI # d # [])"
  by (simp add: shoot_tag_def kw_shoot_def LB_def RB_def)

lemma no_shot_reply_untagged: "\<not> contains shoot_tag [12304, 19981, 24320, 26538, 12305]"
  by (simp add: shoot_tag_def)

lemma players_hunter_down:
  "players hunter_down = mark_dead (fst (initialise_players (seating_plan build_default_config))) 4"
  by (simp add: hunter_down_def game0_def new_game_def)

lemma first_call_view:
  "map (\<lambda>(k, p). (k, role p, alive p, hunter_has_shot p)) (players (trigger_state [48] hunter_down first_call)) =
   [(1, WOLF, False, False), (2, WOLF, True, False), (3, WITCH, True, False),
    (4, HUNTER, False, True), (5, VILLAGER, True, False), (6, VILLAGER, True, False)]"
  by (simp add: trigger_state_def trigger_hunter_if_needed_def first_call_def shoot_1_def
        send_stage_def shoot_replies_parsed shoot_replies_tagged players_hunter_down
        build_default_config_def initialise_players_def initial_player_def Let_def
        mark_dead_def set_dead_def mark_shot_def
        del: contains.simps)

lemma killed_between_view:
  "killed_between ps ps' =
     filter (\<lambda>k. (case map_of (map (\<lambda>(k, p). (k, role p, alive p, hunter_has_shot p)) ps) k of
                    None \<Rightarrow> False | Some (r, a, h) \<Rightarrow> a) \<and>
                 (case map_of (map (\<lambda>(k, p). (k, role p, alive p, hunter_has_shot p)) ps') k of
                    None \<Rightarrow> False | Some (r, a, h) \<Rightarrow> \<not> a))
       (map fst (map (\<lambda>(k, p). (k, role p, alive p, hunter_has_shot p)) ps))"
proof -
  have a: "(case map_of qs k of None \<Rightarrow> False | Some p \<Rightarrow> alive p) =
           (case map_of (map (\<lambda>(k, p). (k, role p, alive p, hunter_has_shot p)) qs) k of
              None \<Rightarrow> False | Some (r, a, h) \<Rightarrow> a)" for qs :: roster and k
    by (cases "map_of qs k") (simp_all add: view_lookup [of qs k, symmetric])
  have d: "(case map_of qs k of None \<Rightarrow> False | Some p \<Rightarrow> \<not> alive p) =
           (case map_of (map (\<lambda>(k, p). (k, role p, alive p, hunter_has_shot p)) qs) k of
              None \<Rightarrow> False | Some (r, a, h) \<Rightarrow> \<not> a)" for qs :: roster and k
    by (cases "map_of qs k") (simp_all add: view_lookup [of qs k, symmetric])
  show ?thesis
    unfolding killed_between_def a d view_keys [symmetric] ..
qed

lemma first_call_kills: "killed_between (players hunter_down) (players (trigger_state [48] hunter_down first_call)) = [1]"
  unfolding killed_between_view hunter_down_view first_call_view by simp

text \<open>
  The dead hunter shoots seat 1 at the first call; after a lynch of seat 5 the second call,
  which asks for seat 2, does nothing.
\<close>

theorem C6_witness:
  "t_seat first_call = 4 \<and>
   killed_between (players hunter_down) (players (trigger_state [48] hunter_down first_call)) = [1] \<and>
   shots_in [48] 4 hunter_down [Trigger first_call, Lynched 5, Trigger second_call] \<le> 1 \<and>
   trigger_hunter_if_needed [48] (match_run [48] (trigger_state [48] hunter_down first_call) [Lynched 5])
       4 ''lynch'' shoot_2 =
     Inr (match_run [48] (trigger_state [48] hunter_down first_call) [Lynched 5]) \<and>
   shots_in [48] 4 (trigger_state [48] hunter_down first_call) [Lynched 5, Trigger second_call] = 0"
proof -
  have s: "t_seat first_call = 4" by (simp add: first_call_def)
  from C6_single_shot [of "[48]" 4 hunter_down "[Trigger first_call, Lynched 5, Trigger second_call]"
      first_call "[Lynched 5]" "''lynch''" shoot_2]
    C6_single_shot [of "[48]" 4 hunter_down "[Trigger first_call, Lynched 5, Trigger second_call]"
      first_call "[Lynched 5, Trigger second_call]" "''lynch''" shoot_2]
    s first_call_kills
  show ?thesis by (simp del: shots_in.simps match_run.simps)
qed

text \<open>
  C4, as amended. For a hunter seat whose ability is unused: a call that returns on a reply
  that is not empty leaves the flag set, with or without a shoot directive in the reply and
  with or without a kill; a call on an absent or empty reply returns with the roster as it
  was, the flag still unset. A call on a dead hunter always returns.
\<close>

theorem C4_hunter_flag:
  assumes "map_of (players gm) seat = Some player" and "role player = HUNTER"
    and "\<not> hunter_has_shot player"
  shows "(i_response ia \<noteq> None \<and> i_response ia \<noteq> Some [] \<and>
            trigger_hunter_if_needed dz gm seat cause ia = Inr gm' \<longrightarrow>
            (\<exists>p'. map_of (players gm') seat = Some p' \<and> hunter_has_shot p')) \<and>
         (i_response ia = None \<or> i_response ia = Some [] \<longrightarrow>
            trigger_hunter_if_needed dz gm seat cause ia =
              Inr (snd (send_stage gm seat ''stage_hunter_trigger'' ia)) \<and>
            players (snd (send_stage gm seat ''stage_hunter_trigger'' ia)) = players gm) \<and>
         (\<not> alive player \<longrightarrow> (\<exists>gm''. trigger_hunter_if_needed dz gm seat cause ia = Inr gm''))"
proof (intro conjI impI)
  assume h: "i_response ia \<noteq> None \<and> i_response ia \<noteq> Some [] \<and>
            trigger_hunter_if_needed dz gm seat cause ia = Inr gm'"
  from trigger_outcomes [OF assms, of dz cause ia] h
  consider (flag) "players gm' = mark_shot (players gm) seat"
    | (shot) target ps' where "set_dead (players gm) target = Inr ps'" "players gm' = mark_shot ps' seat"
    by auto
  then have "has_shot (players gm') seat"
  proof cases
    case flag
    with assms(1) show ?thesis by (simp add: mark_shot_sets)
  next
    case shot
    from shot(1) assms(1) have "map_of ps' seat \<noteq> None" by (auto simp: map_of_set_dead)
    then show ?thesis unfolding shot(2) by (rule mark_shot_sets)
  qed
  then show "\<exists>p'. map_of (players gm') seat = Some p' \<and> hunter_has_shot p'"
    by (simp add: has_shot_def)
next
  assume "i_response ia = None \<or> i_response ia = Some []"
  with trigger_outcomes [OF assms, of dz cause ia]
  show "trigger_hunter_if_needed dz gm seat cause ia =
              Inr (snd (send_stage gm seat ''stage_hunter_trigger'' ia))" by auto
  show "players (snd (send_stage gm seat ''stage_hunter_trigger'' ia)) = players gm"
    by (rule send_stage_players)
next
  assume "\<not> alive player"
  with trigger_outcomes [OF assms, of dz cause ia]
  show "\<exists>gm''. trigger_hunter_if_needed dz gm seat cause ia = Inr gm''" by auto
qed

lemma hunter_down_seat4:
  "\<exists>p. map_of (players hunter_down) 4 = Some p \<and> role p = HUNTER \<and> \<not> alive p \<and> \<not> hunter_has_shot p"
  using view_lookup [of "players hunter_down" 4] by (auto simp: hunter_down_view)

text \<open>
  The claim as stated fails on an absent and on an empty reply: the call returns and the
  flag of seat 4 is still unset.
\<close>

theorem C4_counterexample:
  "(\<exists>gm'. trigger_hunter_if_needed [48] hunter_down 4 ''night'' silent = Inr gm' \<and>
      (\<exists>p. map_of (players gm') 4 = Some p \<and> role p = HUNTER \<and> \<not> hunter_has_shot p)) \<and>
   (\<exists>gm'. trigger_hunter_if_needed [48] hunter_down 4 ''night'' empty_reply = Inr gm' \<and>
      (\<exists>p. map_of (players gm') 4 = Some p \<and> role p = HUNTER \<and> \<not> hunter_has_shot p))"
  using hunter_down_seat4
  by (auto simp: trigger_hunter_if_needed_def send_stage_def silent_def empty_reply_def)

text \<open>
  The dead hunter declines to shoot: the flag is set. The hunter's agent gives no reply:
  the roster is as before.
\<close>

theorem C4_witness:
  "(\<exists>gm'. trigger_hunter_if_needed [48] hunter_down 4 ''night'' no_shot_reply = Inr gm' \<and>
      (\<exists>p'. map_of (players gm') 4 = Some p' \<and> hunter_has_shot p')) \<and>
   trigger_hunter_if_needed [48] hunter_down 4 ''night'' silent =
     Inr (snd (send_stage hunter_down 4 ''stage_hunter_trigger'' silent)) \<and>
   players (snd (send_stage hunter_down 4 ''stage_hunter_trigger'' silent)) = players hunter_down"
proof -
  from hunter_down_seat4 obtain p where
    p: "map_of (players hunter_down) 4 = Some p" "role p = HUNTER" "\<not> hunter_has_shot p"
    and d: "\<not> alive p" by blast
  have n: "i_response no_shot_reply \<noteq> None \<and> i_response no_shot_reply \<noteq> Some []"
    by (simp add: no_shot_reply_def)
  have e: "i_response silent = None \<or> i_response silent = Some []" by (simp add: silent_def)
  from C4_hunter_flag [OF p, of no_shot_reply "[48]" "''night''"] d obtain gm'' where
    r: "trigger_hunter_if_needed [48] hunter_down 4 ''night'' no_shot_reply = Inr gm''" by blast
  from C4_hunter_flag [OF p, of no_shot_reply "[48]" "''night''" gm''] n r
  have "\<exists>p'. map_of (players gm'') 4 = Some p' \<and> hunter_has_shot p'" by blast
  with r C4_hunter_flag [OF p, of silent "[48]" "''night''"] e show ?thesis by blast
qed

section \<open>Properties of the vote\<close>

lemma first_of_wolves_alive:
  "(case wolves_alive ps of [] \<Rightarrow> None | w # _ \<Rightarrow> Some w) = spec_first_alive_wolf ps"
  by (induction ps) (auto simp: wolves_alive_def spec_first_alive_wolf_def)

lemma spec_first_alive_wolf_None:
  "spec_first_alive_wolf ps = None \<longleftrightarrow> (\<forall>(k, p) \<in> set ps. \<not> (alive p \<and> role p = WOLF))"
  by (auto simp: spec_first_alive_wolf_def find_None_iff)

lemma vote_target_fallback:
  assumes "parsed_vote dz vote = None \<or>
           (\<exists>t. parsed_vote dz vote = Some t \<and>
                (map_of ps t = None \<or> (\<exists>tp. map_of ps t = Some tp \<and> \<not> alive tp)))"
  shows "vote_target dz ps vote = spec_first_alive_wolf ps"
  using assms by (auto simp: vote_target_def Let_def first_of_wolves_alive)

lemma add_vote_last:
  "\<exists>r. rounds (add_vote c n f t) n = Some r \<and> votes (day r) \<noteq> [] \<and> last (votes (day r)) = (f, t)"
  by (simp add: add_vote_def put_round_def split: prod.splits)

lemma voting_seat_alive:
  assumes "map_of (players gm) seat = Some player" "alive player"
  shows "\<exists>vr' gm'. voting_seat dz (vr, gm) seat ia1 ia2 ia3 ia4 ia5 = Inr (vr', gm') \<and>
           players gm' = players gm \<and>
           map_of (vr_votes vr') seat = Some (vote_target dz (players gm) (i_response ia5)) \<and>
           (\<exists>r. rounds (chronicle gm') (round_no gm) = Some r \<and> votes (day r) \<noteq> [] \<and>
                last (votes (day r)) = (seat, vote_target dz (players gm) (i_response ia5)))"
  using assms add_vote_last
  by (simp add: voting_seat_def Let_def send_stage_def update_conv' split: prod.splits)

text \<open>
  C5. For an alive voting seat: when no target is parsed from its reply, or the parsed
  target is no seat of the roster, or that seat is not alive, the vote written to the vote
  record and to the chronicle is the first alive wolf seat of the roster (the voter's seat
  plays no part in it), and it is \<open>None\<close> exactly when no wolf is alive.
\<close>

theorem C5_vote_fallback:
  assumes "map_of (players gm) seat = Some player" and "alive player"
    and "parsed_vote dz (i_response ia5) = None \<or>
         (\<exists>t. parsed_vote dz (i_response ia5) = Some t \<and>
              (map_of (players gm) t = None \<or>
               (\<exists>tp. map_of (players gm) t = Some tp \<and> \<not> alive tp)))"
  shows "\<exists>vr' gm'. voting_seat dz (vr, gm) seat ia1 ia2 ia3 ia4 ia5 = Inr (vr', gm') \<and>
           map_of (vr_votes vr') seat = Some (spec_first_alive_wolf (players gm)) \<and>
           (\<exists>r. rounds (chronicle gm') (round_no gm) = Some r \<and> votes (day r) \<noteq> [] \<and>
                last (votes (day r)) = (seat, spec_first_alive_wolf (players gm))) \<and>
           (spec_first_alive_wolf (players gm) = None \<longleftrightarrow>
              (\<forall>(k, p) \<in> set (players gm). \<not> (alive p \<and> role p = WOLF)))"
  using voting_seat_alive [OF assms(1,2), of dz vr ia1 ia2 ia3 ia4 ia5]
        vote_target_fallback [OF assms(3)] spec_first_alive_wolf_None [of "players gm"]
  by auto

lemma game0_seat1:
  "\<exists>player. map_of (players game0) 1 = Some player \<and> alive player \<and> role player = WOLF"
  by (simp add: game0_def new_game_def build_default_config_def initialise_players_def
        initial_player_def Let_def)

lemma game0_first_wolf: "spec_first_alive_wolf (players game0) = Some 1"
  by (simp add: game0_def new_game_def build_default_config_def initialise_players_def
        initial_player_def Let_def spec_first_alive_wolf_def)

lemma game0_no_seat9: "map_of (players game0) 9 = None"
  by (simp add: game0_def new_game_def build_default_config_def initialise_players_def
        initial_player_def Let_def)

lemma vote_for_9_parsed: "parsed_vote [48] (i_response vote_for_9) = Some 9"
  using parse_directive_first_digit [of kw_vote "[48]" 57 9 "[]"]
  by (simp add: parsed_vote_def vote_for_9_def kw_vote_def RB_def)

text \<open>Seat 1, a wolf, votes for the missing seat 9: its recorded vote is seat 1, itself.\<close>

theorem C5_witness:
  "\<exists>vr' gm'. voting_seat [48] (vote_record0, game0) 1 silent silent silent silent vote_for_9 = Inr (vr', gm') \<and>
      map_of (vr_votes vr') 1 = Some (Some 1)"
proof -
  from game0_seat1 obtain player where p: "map_of (players game0) 1 = Some player" "alive player"
    by blast
  have "parsed_vote [48] (i_response vote_for_9) = None \<or>
         (\<exists>t. parsed_vote [48] (i_response vote_for_9) = Some t \<and>
              (map_of (players game0) t = None \<or>
               (\<exists>tp. map_of (players game0) t = Some tp \<and> \<not> alive tp)))"
    using vote_for_9_parsed game0_no_seat9 by simp
  from C5_vote_fallback [OF p this, of vote_record0 silent silent silent silent]
  show ?thesis by (auto simp: game0_first_wolf)
qed

section \<open>Properties of the day order\<close>

lemma night_wolves_tally_players:
  "night_wolves_tally gm ws = Inr gm' \<Longrightarrow> players gm' = players gm"
  by (auto simp: night_wolves_tally_def split: sum.splits option.splits)

lemma game_step_never_revives: "never_revives (players gm) (players (game_step dz gm e))"
proof (cases e)
  case (RosterWrite x)
  then show ?thesis by (simp add: match_step_never_revives)
next
  case (WolvesTallied ws)
  then show ?thesis
    by (auto simp: never_revives_refl night_wolves_tally_players split: sum.splits)
next
  case DeathsResolved
  then show ?thesis by (simp add: resolve_deaths_never_revives)
next
  case DayBegins
  then show ?thesis by (simp add: day_phase_order_def Let_def never_revives_refl)
qed (simp_all add: never_revives_refl send_stage_players)

lemma game_run_never_revives: "never_revives (players gm) (players (game_run dz gm es))"
proof (induction es arbitrary: gm)
  case Nil
  show ?case by (simp add: never_revives_refl)
next
  case (Cons e es)
  have "never_revives (players gm) (players (game_step dz gm e))"
    by (rule game_step_never_revives)
  moreover have "never_revives (players (game_step dz gm e)) (players (game_run dz (game_step dz gm e) es))"
    by (rule Cons.IH)
  ultimately show ?case by (simp add: never_revives_trans)
qed

text \<open>The roster events alone are a match as above, and every round number is reached.\<close>

lemma game_run_roster_writes: "game_run dz gm (map RosterWrite es) = match_run dz gm es"
  by (induction es arbitrary: gm) simp_all

lemma game_run_rounds:
  "round_no (game_run dz gm (replicate n RoundEnds)) = round_no gm + int n"
  by (induction n arbitrary: gm) simp_all

text \<open>The roster's keys are the plan's seats, in the plan's order.\<close>

lemma foldl_update_order:
  "map fst (foldl (\<lambda>ps x. AList.update (k x) (v x) ps) [] xs) = first_seen (map k xs)"
proof (induction xs rule: rev_induct)
  case Nil
  show ?case by (simp add: first_seen_def)
next
  case (snoc x xs)
  then show ?case by (simp add: update_keys first_seen_snoc set_first_seen)
qed

lemma initialise_players_order:
  "map fst (fst (initialise_players plan)) = first_seen (map seat_id plan)"
  using foldl_update_order [of seat_id _ plan]
  by (simp add: initialise_players_def Let_def fst_foldl_pair)

lemma first_seen_distinct: "distinct ws \<Longrightarrow> first_seen ws = ws"
  by (simp add: first_seen_def distinct_remdups_id)

lemma game_run_keys:
  "map fst (players (game_run dz (new_game cfg g) es)) = seating_order cfg"
proof -
  have "map fst (players (game_run dz (new_game cfg g) es)) = map fst (players (new_game cfg g))"
    using game_run_never_revives by (rule never_revives_keys)
  then show ?thesis
    by (simp add: new_game_def initialise_players_order seating_order_def seat_ids_def)
qed

lemma alive_seats_lookup:
  "distinct (map fst ps) \<Longrightarrow> alive_seats ps = filter (alive_at ps) (map fst ps)"
proof -
  have "map fst (filter (\<lambda>(seat, player). alive player) qs) =
        filter (alive_at ps) (map fst qs)"
    if "distinct (map fst ps)" and "set qs \<subseteq> set ps" for qs
    using that by (induction qs) (auto simp: alive_at_def)
  from this [of ps] show "distinct (map fst ps) \<Longrightarrow> alive_seats ps = filter (alive_at ps) (map fst ps)"
    by (simp add: alive_seats_def)
qed

lemma alive_seats_sorted:
  assumes "sorted_wrt (<) (map fst ps)"
  shows "sorted_wrt (<) (alive_seats ps)"
proof -
  from assms have "sorted_wrt (\<lambda>x y. fst x < fst y) ps" by (simp add: sorted_wrt_map)
  then have "sorted_wrt (\<lambda>x y. fst x < fst y) (filter (\<lambda>(seat, player). alive player) ps)"
    by (rule sorted_wrt_filter)
  then show ?thesis by (simp add: alive_seats_def sorted_wrt_map)
qed

lemma set_alive_seats:
  "distinct (map fst ps) \<Longrightarrow>
   set (alive_seats ps) = {k. \<exists>p. map_of ps k = Some p \<and> alive p}"
  by (auto simp: alive_seats_def intro: rev_image_eqI dest: map_of_SomeD)

lemma alive_seats_ascending:
  assumes "sorted_wrt (<) (map fst ps)"
  shows "alive_seats ps = spec_alive_ascending ps"
    and "alive_seats ps = sorted_list_of_set {k. \<exists>p. map_of ps k = Some p \<and> alive p}"
proof -
  from assms have s: "sorted_wrt (<) (alive_seats ps)" by (rule alive_seats_sorted)
  then have "sorted (alive_seats ps)" by (rule strict_sorted_imp_sorted)
  then show "alive_seats ps = spec_alive_ascending ps"
    by (simp add: spec_alive_ascending_def sorted_sort_id)
  from assms have "distinct (map fst ps)" by (simp add: strict_sorted_iff)
  then have "set (alive_seats ps) = {k. \<exists>p. map_of ps k = Some p \<and> alive p}"
    by (rule set_alive_seats)
  moreover from s have "sorted_list_of_set (set (alive_seats ps)) = alive_seats ps"
    by (simp add: strict_sorted_iff sorted_list_of_set.idem_if_sorted_distinct)
  ultimately show "alive_seats ps = sorted_list_of_set {k. \<exists>p. map_of ps k = Some p \<and> alive p}"
    by simp
qed

lemma day_phase_order_recorded:
  "\<exists>r. rounds (chronicle (snd (day_phase_order gm))) (round_no gm) = Some r \<and>
       order (day r) = alive_seats (players gm)"
  by (simp add: day_phase_order_def Let_def ensure_round_def new_round_def split: option.splits)

text \<open>
  C9, as amended. The speaking order computed at the start of the day phase is the list of
  the roster's alive seats, and it is recorded as the day order of the current round, where
  the later chronicle operations of the day leave it. In every state of every match, in
  whatever round, that list is the seating plan's seats in the plan's order without the
  dead ones; for a plan that lists its seats in ascending order it is the alive seats in
  ascending seat order.
\<close>

theorem C9_day_order:
  assumes "day_phase_order gm = (ord, gm')"
  shows "ord = alive_seats (players gm) \<and>
         ord = map fst (filter (\<lambda>(seat, player). alive player) (players gm)) \<and>
         (\<exists>r. rounds (chronicle gm') (round_no gm) = Some r \<and> order (day r) = ord) \<and>
         (list_all keeps_day_order ops \<longrightarrow>
            (\<exists>r. rounds (chron_run (chronicle gm') ops) (round_no gm) = Some r \<and> order (day r) = ord)) \<and>
         (gm = game_run dz (new_game cfg g) es \<longrightarrow>
            ord = filter (alive_at (players gm)) (seating_order cfg) \<and>
            (distinct (seat_ids cfg) \<longrightarrow> ord = filter (alive_at (players gm)) (seat_ids cfg)) \<and>
            (sorted_wrt (<) (seat_ids cfg) \<longrightarrow>
               ord = spec_alive_ascending (players gm) \<and>
               ord = sorted_list_of_set {k. \<exists>p. map_of (players gm) k = Some p \<and> alive p}))"
proof -
  have "fst (day_phase_order gm) = alive_seats (players gm)"
    by (simp add: day_phase_order_def Let_def)
  with assms have o: "ord = alive_seats (players gm)" by simp
  from assms have g: "gm' = snd (day_phase_order gm)" by simp
  have rec: "\<exists>r. rounds (chronicle gm') (round_no gm) = Some r \<and> order (day r) = ord"
    unfolding o g by (rule day_phase_order_recorded)
  have keep: "\<exists>r. rounds (chron_run (chronicle gm') ops) (round_no gm) = Some r \<and> order (day r) = ord"
    if "list_all keeps_day_order ops"
    using rec chron_run_keeps_order [OF that] by metis
  have unf: "ord = map fst (filter (\<lambda>(seat, player). alive player) (players gm))"
    unfolding o by (simp add: alive_seats_def)
  have plan: "ord = filter (alive_at (players gm)) (seating_order cfg) \<and>
            (distinct (seat_ids cfg) \<longrightarrow> ord = filter (alive_at (players gm)) (seat_ids cfg)) \<and>
            (sorted_wrt (<) (seat_ids cfg) \<longrightarrow>
               ord = spec_alive_ascending (players gm) \<and>
               ord = sorted_list_of_set {k. \<exists>p. map_of (players gm) k = Some p \<and> alive p})"
    if h: "gm = game_run dz (new_game cfg g) es"
  proof -
    from h have keys: "map fst (players gm) = seating_order cfg" by (simp add: game_run_keys)
    have "distinct (seating_order cfg)" by (simp add: seating_order_def distinct_first_seen)
    with keys have "distinct (map fst (players gm))" by simp
    then have "alive_seats (players gm) = filter (alive_at (players gm)) (map fst (players gm))"
      by (rule alive_seats_lookup)
    with keys have a: "ord = filter (alive_at (players gm)) (seating_order cfg)" by (simp add: o)
    have b: "ord = filter (alive_at (players gm)) (seat_ids cfg)" if "distinct (seat_ids cfg)"
      using a that by (simp add: seating_order_def first_seen_distinct)
    have c: "ord = spec_alive_ascending (players gm) \<and>
             ord = sorted_list_of_set {k. \<exists>p. map_of (players gm) k = Some p \<and> alive p}"
      if s: "sorted_wrt (<) (seat_ids cfg)"
    proof -
      from s have "distinct (seat_ids cfg)" by (simp add: strict_sorted_iff)
      then have "seating_order cfg = seat_ids cfg" by (simp add: seating_order_def first_seen_distinct)
      with keys s have "sorted_wrt (<) (map fst (players gm))" by simp
      then show ?thesis unfolding o by (intro conjI alive_seats_ascending)
    qed
    from a b c show ?thesis by blast
  qed
  from o unf rec keep plan show ?thesis by blast
qed

lemma shuffled_order:
  "alive_seats (players (new_game shuffled_config (42::nat))) = [2, 1, 3, 4]"
  by (simp add: alive_seats_def new_game_def shuffled_config_def initialise_players_def
        initial_player_def Let_def)

text \<open>
  The claim as stated fails for the seating plan 2, 1, 3, 4: the first day's speaking order
  is 2, 1, 3, 4.
\<close>

theorem C9_counterexample:
  "fst (day_phase_order (new_game shuffled_config (42::nat))) = [2, 1, 3, 4] \<and>
   spec_alive_ascending (players (new_game shuffled_config (42::nat))) = [1, 2, 3, 4]"
  by (simp add: day_phase_order_def Let_def spec_alive_ascending_def shuffled_order)

lemma tally_55: "wolves_kill_target [5, 5] = Inr (Some 5)"
  by (simp add: wolves_kill_target_def Counter_def counter_add_def most_common_1_def)

lemma tally_6: "wolves_kill_target [6] = Inr (Some 6)"
  by (simp add: wolves_kill_target_def Counter_def counter_add_def most_common_1_def)

lemma tally_3: "wolves_kill_target [3] = Inr (Some 3)"
  by (simp add: wolves_kill_target_def Counter_def counter_add_def most_common_1_def)

lemma second_day_order: "alive_seats (players second_day) = [2, 3, 4] \<and> round_no second_day = 2"
  by (simp add: second_day_def second_day_events_def game0_def new_game_def
        build_default_config_def initialise_players_def initial_player_def Let_def
        send_stage_def night_wolves_tally_def tally_55 tally_6 new_night_outcome_def
        resolve_deaths_def night_deaths_def mark_dead_def set_dead_def day_phase_order_def
        alive_seats_def)

lemma shuffled_day_order: "alive_seats (players shuffled_day) = [2, 1, 4] \<and> round_no shuffled_day = 1"
  by (simp add: shuffled_day_def shuffled_day_events_def new_game_def
        shuffled_config_def initialise_players_def initial_player_def Let_def
        send_stage_def night_wolves_tally_def tally_3 new_night_outcome_def
        resolve_deaths_def night_deaths_def mark_dead_def set_dead_def day_phase_order_def
        alive_seats_def)

text \<open>
  The default match at the start of its second day, seats 2, 3 and 4 left: the order is
  2, 3, 4 and is recorded for round 2. The plan 2, 1, 3, 4 with seat 3 dead: the order is
  2, 1, 4.
\<close>

theorem C9_witness:
  "second_day = game_run [48] (new_game build_default_config 42) second_day_events \<and>
   round_no second_day = 2 \<and>
   sorted_wrt (<) (seat_ids build_default_config) \<and>
   distinct (seat_ids build_default_config) \<and>
   list_all keeps_day_order second_day_ops \<and>
   fst (day_phase_order second_day) = [2, 3, 4] \<and>
   filter (alive_at (players second_day)) (seating_order build_default_config) = [2, 3, 4] \<and>
   filter (alive_at (players second_day)) (seat_ids build_default_config) = [2, 3, 4] \<and>
   spec_alive_ascending (players second_day) = [2, 3, 4] \<and>
   (\<exists>r. rounds (chronicle (snd (day_phase_order second_day))) 2 = Some r \<and>
        order (day r) = [2, 3, 4]) \<and>
   (\<exists>r. rounds (chron_run (chronicle (snd (day_phase_order second_day))) second_day_ops) 2 = Some r \<and>
        order (day r) = [2, 3, 4]) \<and>
   shuffled_day = game_run [48] (new_game shuffled_config 42) shuffled_day_events \<and>
   distinct (seat_ids shuffled_config) \<and>
   seat_ids shuffled_config = [2, 1, 3, 4] \<and>
   fst (day_phase_order shuffled_day) = [2, 1, 4] \<and>
   filter (alive_at (players shuffled_day)) (seat_ids shuffled_config) = [2, 1, 4]"
proof -
  have k: "list_all keeps_day_order second_day_ops" by (simp add: second_day_ops_def)
  have d: "day_phase_order second_day = (fst (day_phase_order second_day), snd (day_phase_order second_day))"
    by simp
  have s: "sorted_wrt (<) (seat_ids build_default_config)" "distinct (seat_ids build_default_config)"
    by (simp_all add: build_default_config_def seat_ids_def)
  have a: "second_day = game_run [48] (new_game build_default_config 42) second_day_events"
    by (simp only: second_day_def game0_def)
  have o: "fst (day_phase_order second_day) = [2, 3, 4]"
    using second_day_order by (simp add: day_phase_order_def Let_def)
  have r: "round_no second_day = 2" using second_day_order by simp
  have d': "day_phase_order shuffled_day = (fst (day_phase_order shuffled_day), snd (day_phase_order shuffled_day))"
    by simp
  have s': "distinct (seat_ids shuffled_config)" "seat_ids shuffled_config = [2, 1, 3, 4]"
    by (simp_all add: shuffled_config_def seat_ids_def)
  have a': "shuffled_day = game_run [48] (new_game shuffled_config 42) shuffled_day_events"
    by (simp only: shuffled_day_def)
  have o': "fst (day_phase_order shuffled_day) = [2, 1, 4]"
    using shuffled_day_order by (simp add: day_phase_order_def Let_def)
  from C9_day_order [OF d, where ops = second_day_ops and dz = "[48]" and cfg = build_default_config
                       and g = 42 and es = second_day_events] a s k o r
  have one: "filter (alive_at (players second_day)) (seating_order build_default_config) = [2, 3, 4] \<and>
   filter (alive_at (players second_day)) (seat_ids build_default_config) = [2, 3, 4] \<and>
   spec_alive_ascending (players second_day) = [2, 3, 4] \<and>
   (\<exists>r. rounds (chronicle (snd (day_phase_order second_day))) 2 = Some r \<and>
        order (day r) = [2, 3, 4]) \<and>
   (\<exists>r. rounds (chron_run (chronicle (snd (day_phase_order second_day))) second_day_ops) 2 = Some r \<and>
        order (day r) = [2, 3, 4])"
    by (auto simp del: game_run.simps chron_run.simps)
  from C9_day_order [OF d', where ops = "[]" and dz = "[48]" and cfg = shuffled_config
                       and g = 42 and es = shuffled_day_events] a' s'(1) o'
  have two: "filter (alive_at (players shuffled_day)) (seat_ids shuffled_config) = [2, 1, 4]"
    by (auto simp del: game_run.simps chron_run.simps)
  from a r s k o one a' s' o' two show ?thesis by blast
qed

end
